theory Spec2Isabelle
  imports Complex_Main "HOL-Library.Char_ord" "HOL-Library.List_Lexorder"
begin

section \<open>Decoded JSON values and transcript lines\<close>

text \<open>
  The functions of \<^verbatim>\<open>cli.py\<close> work on what \<^verbatim>\<open>json.loads\<close> returns. A decoded value is
  \<^verbatim>\<open>None\<close>, a bool, a number, a \<^verbatim>\<open>str\<close>, a \<^verbatim>\<open>list\<close> or a \<^verbatim>\<open>dict\<close> with string keys
  (an association list here, each key once, as a Python dict holds it). Texts are lists
  of code points in the range 0..255. Numbers are the integers; no function modelled
  here computes with a fractional JSON number.
\<close>

datatype json =
    JNull
  | JBool bool
  | JNum int
  | JStr string
  | JList "json list"
  | JDict "(string \<times> json) list"

text \<open>
  Every scan starts with
  \<^verbatim>\<open>for line in content.split("\n"): if not line.strip(): continue;
     try: entry = json.loads(line) except json.JSONDecodeError: continue\<close>.
  A line is therefore seen through these two tests only: it is blank, it does not
  decode, or it decodes to a value.
\<close>

datatype line = Blank | Malformed | Parsed json

datatype error = AttributeError | TypeError | ValueError | JSONDecodeError

text \<open>\<^verbatim>\<open>x.get(k, d)\<close>: only a dict has the method.\<close>

fun py_get :: "json \<Rightarrow> string \<Rightarrow> json \<Rightarrow> error + json" where
  "py_get (JDict kvs) k d = Inr (case map_of kvs k of None \<Rightarrow> d | Some v \<Rightarrow> v)"
| "py_get _ k d = Inl AttributeError"

text \<open>Python's truth value of a decoded JSON value.\<close>

fun truthy :: "json \<Rightarrow> bool" where
  "truthy JNull = False"
| "truthy (JBool b) = b"
| "truthy (JNum n) = (n \<noteq> 0)"
| "truthy (JStr s) = (s \<noteq> [])"
| "truthy (JList xs) = (xs \<noteq> [])"
| "truthy (JDict kvs) = (kvs \<noteq> [])"

section \<open>Text helpers of the Python library\<close>

text \<open>
  \<^verbatim>\<open>str.isspace\<close> and the regex class \<^verbatim>\<open>\s\<close> on the code points 0..255: TAB, LF, VT, FF,
  CR, the separators 0x1C..0x1F, the space, NEL (0x85) and the no-break space (0xA0).
\<close>

definition is_space :: "char \<Rightarrow> bool" where
  "is_space c = (c \<in> set [CHR 0x09, CHR 0x0A, CHR 0x0B, CHR 0x0C, CHR 0x0D,
                           CHR 0x1C, CHR 0x1D, CHR 0x1E, CHR 0x1F, CHR '' '',
                           CHR 0x85, CHR 0xA0])"

text \<open>\<^verbatim>\<open>s.strip()\<close>\<close>

definition strip :: "string \<Rightarrow> string" where
  "strip s = rev (dropWhile is_space (rev (dropWhile is_space s)))"

text \<open>
  Matching under \<^verbatim>\<open>re.IGNORECASE\<close>: the patterns of this program are written in lower
  case ASCII, and in the range 0..255 a pattern letter matches itself and its upper
  case form only; every other pattern character matches itself.
\<close>

definition ascii_lower :: "char \<Rightarrow> char" where
  "ascii_lower c =
     (if CHR ''A'' \<le> c \<and> c \<le> CHR ''Z'' then char_of (of_char c + (32::nat)) else c)"

text \<open>A literal pattern anchored at the start, case-insensitive.\<close>

definition ci_prefix :: "string \<Rightarrow> string \<Rightarrow> bool" where
  "ci_prefix p s = (length p \<le> length s \<and> map ascii_lower (take (length p) s) = p)"

section \<open>Title generator\<close>

text \<open>
  \<^verbatim>\<open>_is_ide_context_message(text)\<close>: empty text, a text that starts (after \<^verbatim>\<open>strip\<close>)
  with one of five tags, or a stripped text shorter than 10.
\<close>

definition ide_patterns :: "string list" where
  "ide_patterns = [''<ide_opened_file>'', ''<ide_selection>'', ''<ide_visible_files>'',
                   ''<system-reminder>'', ''<command-name>'']"

definition is_ide_context_message :: "string \<Rightarrow> bool" where
  "is_ide_context_message text =
     (if text = [] then True
      else (let t = strip text in
            if list_ex (\<lambda>p. ci_prefix p t) ide_patterns then True
            else length t < 10))"

text \<open>
  \<^verbatim>\<open>re.sub(r"^(hi|hello|hey|please|can you|could you)\s+", "", title, flags=re.IGNORECASE)\<close>.
  The pattern is anchored at the start of the text (no \<^verbatim>\<open>re.MULTILINE\<close>), so at most one
  match is replaced. The alternatives are tried in order; one matches when it is followed
  by at least one white-space character, and \<^verbatim>\<open>\s+\<close> then takes the whole run.
\<close>

definition greetings :: "string list" where
  "greetings = [''hi'', ''hello'', ''hey'', ''please'', ''can you'', ''could you'']"

fun strip_greeting :: "string list \<Rightarrow> string \<Rightarrow> string" where
  "strip_greeting [] s = s"
| "strip_greeting (g # gs) s =
     (if ci_prefix g s
         \<and> (case drop (length g) s of [] \<Rightarrow> False | c # _ \<Rightarrow> is_space c)
      then dropWhile is_space (drop (length g) s)
      else strip_greeting gs s)"

text \<open>\<^verbatim>\<open>re.split(r"[.!?\n]", title)[0]\<close>: the text before the first terminator.\<close>

definition is_terminator :: "char \<Rightarrow> bool" where
  "is_terminator c = (c \<in> set [CHR ''.'', CHR ''!'', CHR ''?'', CHR 0x0A])"

definition first_sentence :: "string \<Rightarrow> string" where
  "first_sentence s = takeWhile (\<lambda>c. \<not> is_terminator c) s"

text \<open>
  The transformation of an accepted candidate, lines 680-686:
  \<^verbatim>\<open>title = msg_content.strip(); title = re.sub(...); title = re.split(...)[0];
     return title[:60].strip() or "Untitled Session"\<close>
\<close>

definition clean_title :: "string \<Rightarrow> string" where
  "clean_title msg_content = strip (take 60 (first_sentence (strip_greeting greetings (strip msg_content))))"

definition title_or_fallback :: "string \<Rightarrow> string" where
  "title_or_fallback msg_content =
     (if clean_title msg_content = [] then ''Untitled Session'' else clean_title msg_content)"

text \<open>
  The inner \<^verbatim>\<open>for block in msg_content: if isinstance(block, dict) and block.get("text"):
  msg_content = block["text"]; break\<close>; \<open>None\<close> is the loop's \<^verbatim>\<open>else: continue\<close>.
\<close>

fun first_text_block :: "json list \<Rightarrow> json option" where
  "first_text_block [] = None"
| "first_text_block (JDict kvs # bs) =
     (case map_of kvs ''text'' of
        Some v \<Rightarrow> if truthy v then Some v else first_text_block bs
      | None \<Rightarrow> first_text_block bs)"
| "first_text_block (_ # bs) = first_text_block bs"

text \<open>
  The body of the scan for one decoded record: \<open>Inr None\<close> when the scan goes on to the
  next line, \<open>Inr (Some t)\<close> when the function returns \<open>t\<close>, \<open>Inl e\<close> when it raises.
\<close>

definition title_of_entry :: "json \<Rightarrow> error + string option" where
  "title_of_entry entry =
     (case py_get entry ''type'' JNull of Inl e \<Rightarrow> Inl e | Inr entry_type \<Rightarrow>
      case py_get entry ''message'' (JDict []) of Inl e \<Rightarrow> Inl e | Inr message \<Rightarrow>
      case py_get message ''role'' (JStr []) of Inl e \<Rightarrow> Inl e | Inr role \<Rightarrow>
      if role = JStr ''user'' \<or> entry_type = JStr ''user'' then
        (case py_get message ''content'' (JStr []) of Inl e \<Rightarrow> Inl e | Inr c \<Rightarrow>
         (case (case c of JList bs \<Rightarrow> first_text_block bs | _ \<Rightarrow> Some c) of
            None \<Rightarrow> Inr None
          | Some (JStr s) \<Rightarrow>
              if strip s \<noteq> [] then
                (if is_ide_context_message s then Inr None
                 else Inr (Some (title_or_fallback s)))
              else Inr None
          | Some _ \<Rightarrow> Inr None))
      else Inr None)"

fun generate_title_from_content :: "line list \<Rightarrow> error + string" where
  "generate_title_from_content [] = Inr ''Untitled Session''"
| "generate_title_from_content (Blank # ls) = generate_title_from_content ls"
| "generate_title_from_content (Malformed # ls) = generate_title_from_content ls"
| "generate_title_from_content (Parsed entry # ls) =
     (case title_of_entry entry of
        Inl e \<Rightarrow> Inl e
      | Inr None \<Rightarrow> generate_title_from_content ls
      | Inr (Some t) \<Rightarrow> Inr t)"

text \<open>A user message whose content is one text block, as the transcripts carry it.\<close>

definition user_text_entry :: "string \<Rightarrow> json" where
  "user_text_entry s =
     JDict [(''type'', JStr ''user''),
            (''message'', JDict [(''role'', JStr ''user''),
                                 (''content'', JList [JDict [(''type'', JStr ''text''),
                                                             (''text'', JStr s)]])])]"

section \<open>Artifact extractor\<close>

text \<open>
  \<^verbatim>\<open>get_file_type\<close>: \<^verbatim>\<open>Path(file_path).suffix.lower()\<close> looked up in \<^verbatim>\<open>FILE_TYPE_MAPPINGS\<close>.
  A path is read by \<^verbatim>\<open>pathlib\<close> as its components: the text is split at \<^verbatim>\<open>/\<close>, and empty
  components and \<^verbatim>\<open>.\<close> components are dropped. The name is the last component; its suffix
  starts at the last dot when that dot is neither the first nor the last character.
\<close>

fun split_on :: "char \<Rightarrow> string \<Rightarrow> string list" where
  "split_on sep [] = [[]]"
| "split_on sep (c # cs) =
     (if c = sep then [] # split_on sep cs
      else (case split_on sep cs of [] \<Rightarrow> [[c]] | w # ws \<Rightarrow> (c # w) # ws))"

definition path_parts :: "string \<Rightarrow> string list" where
  "path_parts p = filter (\<lambda>w. w \<noteq> [] \<and> w \<noteq> ''.'') (split_on CHR ''/'' p)"

definition path_name :: "string \<Rightarrow> string" where
  "path_name p = (case rev (path_parts p) of [] \<Rightarrow> [] | n # _ \<Rightarrow> n)"

text \<open>\<^verbatim>\<open>i = name.rfind('.'); name[i:] if 0 < i < len(name) - 1 else ''\<close>\<close>

definition suffix :: "string \<Rightarrow> string" where
  "suffix p =
     (let name = path_name p;
          tl_len = length (takeWhile (\<lambda>c. c \<noteq> CHR ''.'') (rev name))
      in if CHR ''.'' \<in> set name \<and> 0 < tl_len \<and> Suc tl_len < length name
         then drop (length name - Suc tl_len) name else [])"

definition FILE_TYPE_MAPPINGS :: "(string \<times> string) list" where
  "FILE_TYPE_MAPPINGS =
     [(''.py'', ''code''), (''.js'', ''code''), (''.ts'', ''code''), (''.tsx'', ''code''),
      (''.jsx'', ''code''), (''.sh'', ''code''), (''.bash'', ''code''), (''.r'', ''code''),
      (''.R'', ''code''), (''.sql'', ''code''), (''.go'', ''code''), (''.rs'', ''code''),
      (''.java'', ''code''), (''.c'', ''code''), (''.cpp'', ''code''), (''.h'', ''code''),
      (''.hpp'', ''code''), (''.md'', ''document''), (''.txt'', ''document''),
      (''.rst'', ''document''), (''.tex'', ''document''), (''.json'', ''data''),
      (''.csv'', ''data''), (''.jsonl'', ''data''), (''.geojson'', ''data''),
      (''.xml'', ''data''), (''.yaml'', ''config''), (''.yml'', ''config''),
      (''.toml'', ''config''), (''.ini'', ''config''), (''.env'', ''config''),
      (''.png'', ''image''), (''.jpg'', ''image''), (''.jpeg'', ''image''),
      (''.gif'', ''image''), (''.svg'', ''image''), (''.pdf'', ''document''),
      (''.html'', ''document'')]"

text \<open>
  \<^verbatim>\<open>.lower()\<close> changes code points above 127 too, into code points above 127; the keys of
  the table are ASCII, so the lookup sees the ASCII letters only.
\<close>

definition get_file_type :: "string \<Rightarrow> string" where
  "get_file_type file_path =
     (case map_of FILE_TYPE_MAPPINGS (map ascii_lower (suffix file_path)) of
        None \<Rightarrow> ''other'' | Some t \<Rightarrow> t)"

text \<open>
  The three provisional sets of the scan, \<^verbatim>\<open>written_files\<close>, \<^verbatim>\<open>edited_files\<close> and
  \<^verbatim>\<open>read_files\<close>.
\<close>

record artifact_sets =
  written_files :: "string set"
  edited_files :: "string set"
  read_files :: "string set"

definition no_artifacts :: artifact_sets where
  "no_artifacts = \<lparr>written_files = {}, edited_files = {}, read_files = {}\<rparr>"

text \<open>
  The body of \<^verbatim>\<open>for block in msg_content\<close>, lines 489-504. A truthy \<^verbatim>\<open>file_path\<close> that is not
  a \<^verbatim>\<open>str\<close> makes the function raise \<^verbatim>\<open>TypeError\<close> when the tool is one of the three: at
  \<^verbatim>\<open>add\<close> when it is a list or a dict, and otherwise after the scan, at \<^verbatim>\<open>sorted\<close> or at
  \<^verbatim>\<open>Path(path)\<close>. The function has no effect before it raises, so the model raises at the
  block (when a later record would raise \<^verbatim>\<open>AttributeError\<close> first, the model still
  reports \<^verbatim>\<open>TypeError\<close>).
\<close>

definition add_file :: "artifact_sets \<Rightarrow> json \<Rightarrow> string \<Rightarrow> artifact_sets" where
  "add_file acc tool_name p =
     (if tool_name = JStr ''Write''
      then acc\<lparr>written_files := insert p (written_files acc)\<rparr>
      else if tool_name = JStr ''Edit''
      then acc\<lparr>edited_files := insert p (edited_files acc)\<rparr>
      else if tool_name = JStr ''Read''
      then acc\<lparr>read_files := insert p (read_files acc)\<rparr>
      else acc)"

definition artifact_block :: "artifact_sets \<Rightarrow> json \<Rightarrow> error + artifact_sets" where
  "artifact_block acc block =
     (case block of
        JDict kvs \<Rightarrow>
          if map_of kvs ''type'' \<noteq> Some (JStr ''tool_use'') then Inr acc
          else
            (case py_get block ''name'' (JStr []) of Inl e \<Rightarrow> Inl e | Inr tool_name \<Rightarrow>
             case py_get block ''input'' (JDict []) of Inl e \<Rightarrow> Inl e | Inr tool_input \<Rightarrow>
             case py_get tool_input ''file_path'' JNull of Inl e \<Rightarrow> Inl e | Inr file_path \<Rightarrow>
             if \<not> truthy file_path then Inr acc
             else if tool_name \<noteq> JStr ''Write'' \<and> tool_name \<noteq> JStr ''Edit''
                     \<and> tool_name \<noteq> JStr ''Read'' then Inr acc
             else
               (case file_path of
                  JStr p \<Rightarrow> Inr (add_file acc tool_name p)
                | _ \<Rightarrow> Inl TypeError))
      | _ \<Rightarrow> Inr acc)"

fun artifact_blocks :: "artifact_sets \<Rightarrow> json list \<Rightarrow> error + artifact_sets" where
  "artifact_blocks acc [] = Inr acc"
| "artifact_blocks acc (b # bs) =
     (case artifact_block acc b of Inl e \<Rightarrow> Inl e | Inr acc' \<Rightarrow> artifact_blocks acc' bs)"

text \<open>Lines 484-487: the record's role and type are not read.\<close>

definition artifact_entry :: "artifact_sets \<Rightarrow> json \<Rightarrow> error + artifact_sets" where
  "artifact_entry acc entry =
     (case py_get entry ''message'' (JDict []) of Inl e \<Rightarrow> Inl e | Inr message \<Rightarrow>
      case py_get message ''content'' (JList []) of Inl e \<Rightarrow> Inl e | Inr msg_content \<Rightarrow>
      (case msg_content of JList blocks \<Rightarrow> artifact_blocks acc blocks | _ \<Rightarrow> Inr acc))"

fun scan_artifacts :: "artifact_sets \<Rightarrow> line list \<Rightarrow> error + artifact_sets" where
  "scan_artifacts acc [] = Inr acc"
| "scan_artifacts acc (Blank # ls) = scan_artifacts acc ls"
| "scan_artifacts acc (Malformed # ls) = scan_artifacts acc ls"
| "scan_artifacts acc (Parsed entry # ls) =
     (case artifact_entry acc entry of Inl e \<Rightarrow> Inl e | Inr acc' \<Rightarrow> scan_artifacts acc' ls)"

text \<open>
  \<^verbatim>\<open>make_relative\<close>, lines 514-522. \<^verbatim>\<open>Path(path).resolve()\<close> reads the file system (current
  directory, symbolic links), so it is a parameter: \<open>resolve p\<close> is the list of components
  of the resolved absolute path below the root \<^verbatim>\<open>/\<close>, or \<open>None\<close> when \<^verbatim>\<open>ValueError\<close> is
  raised. \<^verbatim>\<open>relative_to\<close> raises \<^verbatim>\<open>ValueError\<close> unless the components of the root are a
  prefix; the text of the relative path joins the remaining components with \<^verbatim>\<open>/\<close> or is
  \<^verbatim>\<open>.\<close> when none remains. A \<^verbatim>\<open>Path\<close> object is always truthy, so \<^verbatim>\<open>if project_dir\<close> tests
  for \<^verbatim>\<open>None\<close>.
\<close>

fun join_path :: "string list \<Rightarrow> string" where
  "join_path [] = ''.''"
| "join_path [w] = w"
| "join_path (w # ws) = w @ ''/'' @ join_path ws"

definition make_relative ::
  "(string \<Rightarrow> string list option) \<Rightarrow> string option \<Rightarrow> string \<Rightarrow> string" where
  "make_relative resolve project_dir p =
     (case project_dir of
        None \<Rightarrow> p
      | Some project_root \<Rightarrow>
          (case resolve p of
             None \<Rightarrow> p
           | Some resolved \<Rightarrow>
               (case resolve project_root of
                  None \<Rightarrow> p
                | Some base \<Rightarrow>
                    if take (length base) resolved = base
                    then join_path (drop (length base) resolved)
                    else p)))"

text \<open>
  What \<^verbatim>\<open>resolve\<close> returns for an absolute path without \<^verbatim>\<open>..\<close> components when no
  directory on the way is a symbolic link: the components of the path.
\<close>

definition lexical_resolve :: "string \<Rightarrow> string list option" where
  "lexical_resolve p = Some (path_parts p)"

record artifact =
  path :: string
  type :: string

record artifacts =
  created :: "artifact list"
  modified :: "artifact list"
  referenced :: "artifact list"

definition artifact_of ::
  "(string \<Rightarrow> string list option) \<Rightarrow> string option \<Rightarrow> string \<Rightarrow> artifact" where
  "artifact_of resolve project_dir p =
     \<lparr>path = make_relative resolve project_dir p, type = get_file_type p\<rparr>"

text \<open>Lines 510-544: the set algebra, then one sorted pass per set.\<close>

definition extract_artifacts ::
  "(string \<Rightarrow> string list option) \<Rightarrow> line list \<Rightarrow> string option \<Rightarrow> error + artifacts" where
  "extract_artifacts resolve content project_dir =
     (case scan_artifacts no_artifacts content of
        Inl e \<Rightarrow> Inl e
      | Inr acc \<Rightarrow>
          (let created_set = written_files acc;
               modified_set = edited_files acc - written_files acc;
               referenced_set = read_files acc - edited_files acc - written_files acc
           in Inr \<lparr>created = map (artifact_of resolve project_dir)
                                 (sorted_list_of_set created_set),
                    modified = map (artifact_of resolve project_dir)
                                  (sorted_list_of_set modified_set),
                    referenced = map (artifact_of resolve project_dir)
                                    (sorted_list_of_set referenced_set)\<rparr>))"

text \<open>A record with the given role, type and list of content blocks, and a tool call.\<close>

definition event :: "json \<Rightarrow> json \<Rightarrow> json list \<Rightarrow> json" where
  "event role entry_type blocks =
     JDict [(''type'', entry_type),
            (''message'', JDict [(''role'', role), (''content'', JList blocks)])]"

definition tool_use :: "string \<Rightarrow> string \<Rightarrow> json" where
  "tool_use name file_path =
     JDict [(''type'', JStr ''tool_use''), (''name'', JStr name),
            (''input'', JDict [(''file_path'', JStr file_path)])]"

text \<open>
  The file paths a transcript shows for one tool name, read off the records without the
  scan: every non-empty \<^verbatim>\<open>file_path\<close> text of a \<^verbatim>\<open>tool_use\<close> block of that name in the
  content list of a decoded record.
\<close>

definition block_path :: "string \<Rightarrow> json \<Rightarrow> string option" where
  "block_path name block =
     (case block of
        JDict kvs \<Rightarrow>
          (if map_of kvs ''type'' = Some (JStr ''tool_use'')
              \<and> (case map_of kvs ''name'' of None \<Rightarrow> JStr [] | Some n \<Rightarrow> n) = JStr name
           then (case map_of kvs ''input'' of
                   Some (JDict ivs) \<Rightarrow>
                     (case map_of ivs ''file_path'' of
                        Some (JStr p) \<Rightarrow> if p \<noteq> [] then Some p else None
                      | _ \<Rightarrow> None)
                 | _ \<Rightarrow> None)
           else None)
      | _ \<Rightarrow> None)"

definition entry_blocks :: "json \<Rightarrow> json list" where
  "entry_blocks entry =
     (case entry of
        JDict kvs \<Rightarrow>
          (case map_of kvs ''message'' of
             Some (JDict mvs) \<Rightarrow>
               (case map_of mvs ''content'' of Some (JList blocks) \<Rightarrow> blocks | _ \<Rightarrow> [])
           | _ \<Rightarrow> [])
      | _ \<Rightarrow> [])"

fun line_blocks :: "line \<Rightarrow> json list" where
  "line_blocks (Parsed entry) = entry_blocks entry"
| "line_blocks _ = []"

definition blocks_paths :: "string \<Rightarrow> json list \<Rightarrow> string set" where
  "blocks_paths name bs = (\<Union>b \<in> set bs. set_option (block_path name b))"

definition tool_paths :: "string \<Rightarrow> line list \<Rightarrow> string set" where
  "tool_paths name content = (\<Union>l \<in> set content. blocks_paths name (line_blocks l))"

text \<open>The lines the title scan passes over: blank, undecodable, or a record it skips.\<close>

fun title_skips :: "line \<Rightarrow> bool" where
  "title_skips Blank = True"
| "title_skips Malformed = True"
| "title_skips (Parsed entry) = (title_of_entry entry = Inr None)"

text \<open>An assistant record with the given content blocks, as a transcript line.\<close>

definition assistant_event :: "json list \<Rightarrow> line" where
  "assistant_event blocks = Parsed (event (JStr ''assistant'') (JStr ''assistant'') blocks)"

section \<open>Manifest and catalog store\<close>

text \<open>
  A persisted JSON file as the store functions see it, through \<^verbatim>\<open>path.exists()\<close> and
  \<^verbatim>\<open>json.loads(path.read_text())\<close>: the file is missing, or it is there and \<^verbatim>\<open>json.loads\<close>
  raises \<^verbatim>\<open>JSONDecodeError\<close>, or it is there and decodes to a value. The two files are
  written by \<^verbatim>\<open>save_manifest\<close> and \<^verbatim>\<open>save_catalog\<close> only, so a file that decodes holds what
  these functions serialise: a mapping from session id to directory, or a catalog.
\<close>

datatype 'a stored = Absent | Garbled | Valid 'a

type_synonym manifest = "(string \<times> string) list"

text \<open>
  \<^verbatim>\<open>load_manifest\<close>, lines 275-280: \<^verbatim>\<open>json.loads\<close> is called with no handler around it.
\<close>

fun load_manifest :: "manifest stored \<Rightarrow> error + manifest" where
  "load_manifest Absent = Inr []"
| "load_manifest Garbled = Inl JSONDecodeError"
| "load_manifest (Valid m) = Inr m"

definition save_manifest :: "manifest \<Rightarrow> manifest stored" where
  "save_manifest m = Valid m"

text \<open>
  An entry of the catalog. \<open>needs_review\<close> is \<open>None\<close> when the entry has no such key:
  \<^verbatim>\<open>save_catalog\<close> reads it with \<^verbatim>\<open>s.get("needs_review", True)\<close>. \<open>started_at\<close> is \<open>None\<close>
  for \<^verbatim>\<open>None\<close>.
\<close>

record catalog_entry =
  entry_id :: string
  directory :: string
  title :: string
  purpose :: string
  started_at :: "string option"
  duration_minutes :: int
  tags :: "string list"
  needs_review :: "bool option"

record catalog =
  schema_version :: string
  generated_at :: "string option"
  archive_location :: string
  total_sessions :: nat
  needs_review_count :: nat
  sessions :: "catalog_entry list"

definition SCHEMA_VERSION :: string where
  "SCHEMA_VERSION = ''1.0''"

text \<open>The structure \<^verbatim>\<open>load_catalog\<close> returns when it cannot read a catalog, lines 302-309.\<close>

definition default_catalog :: "string \<Rightarrow> catalog" where
  "default_catalog archive_dir =
     \<lparr>schema_version = SCHEMA_VERSION, generated_at = None,
      archive_location = archive_dir, total_sessions = 0, needs_review_count = 0,
      sessions = []\<rparr>"

text \<open>\<^verbatim>\<open>load_catalog\<close>, lines 294-309: \<^verbatim>\<open>JSONDecodeError\<close> is caught and falls through.\<close>

fun load_catalog :: "string \<Rightarrow> catalog stored \<Rightarrow> catalog" where
  "load_catalog archive_dir (Valid c) = c"
| "load_catalog archive_dir Garbled = default_catalog archive_dir"
| "load_catalog archive_dir Absent = default_catalog archive_dir"

text \<open>
  \<^verbatim>\<open>save_catalog\<close>, lines 312-320; \<open>now\<close> is \<^verbatim>\<open>datetime.now().isoformat()\<close>. The value is
  what the file holds afterwards.
\<close>

definition counts_for_review :: "catalog_entry \<Rightarrow> bool" where
  "counts_for_review s = (case needs_review s of None \<Rightarrow> True | Some b \<Rightarrow> b)"

definition save_catalog :: "string \<Rightarrow> catalog \<Rightarrow> catalog stored" where
  "save_catalog now c =
     Valid (c\<lparr>generated_at := Some now,
              total_sessions := length (sessions c),
              needs_review_count := length (filter counts_for_review (sessions c))\<rparr>)"

text \<open>
  The fields of the session metadata that \<^verbatim>\<open>update_catalog\<close> reads: \<^verbatim>\<open>session.id\<close>,
  \<^verbatim>\<open>session.started_at\<close>, \<^verbatim>\<open>session.duration_minutes\<close>, \<^verbatim>\<open>auto_generated.title\<close>,
  \<^verbatim>\<open>auto_generated.purpose\<close>, \<^verbatim>\<open>auto_generated.tags\<close> (\<open>None\<close> when the key is missing) and
  \<^verbatim>\<open>archive.directory_name\<close>, \<^verbatim>\<open>archive.needs_review\<close>.
\<close>

record session_metadata =
  session_id :: string
  session_started_at :: "string option"
  session_duration_minutes :: int
  auto_generated_title :: string
  auto_generated_purpose :: string
  auto_generated_tags :: "string list option"
  archive_directory_name :: string
  archive_needs_review :: bool

definition new_entry :: "session_metadata \<Rightarrow> catalog_entry" where
  "new_entry session_metadata =
     \<lparr>entry_id = session_id session_metadata,
      directory = archive_directory_name session_metadata,
      title = auto_generated_title session_metadata,
      purpose = auto_generated_purpose session_metadata,
      started_at = session_started_at session_metadata,
      duration_minutes = session_duration_minutes session_metadata,
      tags = (case auto_generated_tags session_metadata of None \<Rightarrow> [] | Some ts \<Rightarrow> ts),
      needs_review = Some (archive_needs_review session_metadata)\<rparr>"

text \<open>
  \<^verbatim>\<open>existing_ids = {s["id"]: i for i, s in enumerate(catalog["sessions"])}\<close>: a later entry
  with the same id overwrites the index of an earlier one.
\<close>

definition existing_ids :: "catalog_entry list \<Rightarrow> string \<Rightarrow> nat option" where
  "existing_ids ss = map_of (rev (zip (map entry_id ss) [0..<length ss]))"

text \<open>Lines 341-344: replace at the index found, else append.\<close>

definition put_entry :: "catalog_entry \<Rightarrow> catalog_entry list \<Rightarrow> catalog_entry list" where
  "put_entry e ss =
     (case existing_ids ss (entry_id e) of
        Some i \<Rightarrow> ss[i := e]
      | None \<Rightarrow> ss @ [e])"

text \<open>
  \<^verbatim>\<open>sessions.sort(key=lambda s: s.get("started_at") or "", reverse=True)\<close>. Python's sort is
  stable, and with \<^verbatim>\<open>reverse=True\<close> entries with equal keys keep their order: the list is
  reversed, sorted ascending and reversed again.
\<close>

definition sort_key_of :: "catalog_entry \<Rightarrow> string" where
  "sort_key_of s = (case started_at s of None \<Rightarrow> [] | Some t \<Rightarrow> t)"

definition sort_newest_first :: "catalog_entry list \<Rightarrow> catalog_entry list" where
  "sort_newest_first ss = rev (sort_key sort_key_of (rev ss))"

text \<open>\<^verbatim>\<open>update_catalog\<close>, lines 323-351, as a change of the catalog file.\<close>

definition update_catalog ::
  "string \<Rightarrow> string \<Rightarrow> session_metadata \<Rightarrow> catalog stored \<Rightarrow> catalog stored" where
  "update_catalog archive_dir now session_metadata file =
     (let catalog = load_catalog archive_dir file;
          catalog = catalog\<lparr>sessions := put_entry (new_entry session_metadata) (sessions catalog)\<rparr>;
          catalog = catalog\<lparr>sessions := sort_newest_first (sessions catalog)\<rparr>
      in save_catalog now catalog)"

text \<open>
  A sequence of \<^verbatim>\<open>update_catalog\<close> calls on one archive directory, each with the clock
  reading at its save and its metadata.
\<close>

fun update_catalog_all ::
  "string \<Rightarrow> (string \<times> session_metadata) list \<Rightarrow> catalog stored \<Rightarrow> catalog stored" where
  "update_catalog_all archive_dir [] file = file"
| "update_catalog_all archive_dir ((now, md) # calls) file =
     update_catalog_all archive_dir calls (update_catalog archive_dir now md file)"

text \<open>
  What every catalog written by \<^verbatim>\<open>update_catalog\<close> satisfies: the ids of the entries are
  distinct and every entry has the key \<^verbatim>\<open>needs_review\<close>; the two counts agree with the list.
\<close>

definition catalog_ok :: "catalog_entry list \<Rightarrow> bool" where
  "catalog_ok ss = (distinct (map entry_id ss) \<and> list_all (\<lambda>s. needs_review s \<noteq> None) ss)"

fun file_ok :: "catalog stored \<Rightarrow> bool" where
  "file_ok (Valid c) =
     (catalog_ok (sessions c) \<and> total_sessions c = length (sessions c)
      \<and> needs_review_count c = length (filter counts_for_review (sessions c)))"
| "file_ok _ = False"

text \<open>A metadata record for a session id, a start time and a review flag.\<close>

definition sample_metadata :: "string \<Rightarrow> string option \<Rightarrow> bool \<Rightarrow> session_metadata" where
  "sample_metadata sid started review =
     \<lparr>session_id = sid, session_started_at = started, session_duration_minutes = 30,
      auto_generated_title = ''Test Session'', auto_generated_purpose = ''Testing'',
      auto_generated_tags = None, archive_directory_name = ''2026-01-14-test'',
      archive_needs_review = review\<rparr>"

section \<open>Archive operation: change detection\<close>

text \<open>
  \<^verbatim>\<open>int(text)\<close> for a decimal text. The white space that \<^verbatim>\<open>int\<close> drops at both ends is
  narrower than that of \<^verbatim>\<open>str.strip\<close>: TAB, LF, VT, FF, CR and the space, and of the code
  points above 127 the next-line character 0x85 and the no-break space 0xA0; the
  separators 0x1C..0x1F are not dropped, so that \<^verbatim>\<open>12\<close> followed by 0x1F is refused. One
  sign may lead, the digits are the ASCII digits (the only decimal digits of the range 0..255) and
  may be grouped by single underscores, and a text of more than 4300 digits is refused
  (the interpreter's default limit on the conversion, in force since Python 3.11).
  \<open>None\<close> is \<^verbatim>\<open>ValueError\<close>.
\<close>

definition is_int_space :: "char \<Rightarrow> bool" where
  "is_int_space c = (c \<in> set [CHR 0x09, CHR 0x0A, CHR 0x0B, CHR 0x0C, CHR 0x0D, CHR '' '',
                                CHR 0x85, CHR 0xA0])"

definition int_strip :: "string \<Rightarrow> string" where
  "int_strip s = rev (dropWhile is_int_space (rev (dropWhile is_int_space s)))"

definition is_digit :: "char \<Rightarrow> bool" where
  "is_digit c = (CHR ''0'' \<le> c \<and> c \<le> CHR ''9'')"

definition digit_value :: "char \<Rightarrow> int" where
  "digit_value c = int (of_char c) - 48"

definition py_int :: "string \<Rightarrow> int option" where
  "py_int text =
     (let t = int_strip text;
          negative = (case t of c # _ \<Rightarrow> c = CHR ''-'' | [] \<Rightarrow> False);
          body = (case t of c # cs \<Rightarrow> if c = CHR ''-'' \<or> c = CHR ''+'' then cs else t
                  | [] \<Rightarrow> []);
          groups = split_on CHR ''_'' body
      in if list_all (\<lambda>g. g \<noteq> [] \<and> list_all is_digit g) groups
            \<and> length (concat groups) \<le> 4300
         then (let n = foldl (\<lambda>acc c. 10 * acc + digit_value c) 0 (concat groups)
               in Some (if negative then - n else n))
         else None)"

text \<open>
  \<^verbatim>\<open>path.stat().st_size\<close> of a text file: the number of bytes of its UTF-8 form, one byte
  for a code point below 128 and two for the others of the range 0..255.
\<close>

definition st_size :: "string \<Rightarrow> int" where
  "st_size text = int (length text) + int (length (filter (\<lambda>c. CHR 0x7F < c) text))"

text \<open>
  The part of the file system the operation works on: the manifest and the catalog of the
  archive directory, the text files by path (a path is its list of components from the
  root; no component is a symbolic link or \<^verbatim>\<open>..\<close>), and the lines printed to the error
  stream.
\<close>

record archive_fs =
  manifest_file :: "manifest stored"
  catalog_file :: "catalog stored"
  text_files :: "(string list \<times> string) list"
  stderr :: "string list"

text \<open>\<^verbatim>\<open>log_error(message, quiet)\<close>, lines 821-824.\<close>

definition log_error :: "string \<Rightarrow> bool \<Rightarrow> archive_fs \<Rightarrow> archive_fs" where
  "log_error message quiet fs =
     (if \<not> quiet then fs\<lparr>stderr := stderr fs @ [''Error: '' @ message]\<rparr> else fs)"

text \<open>
  The arguments of \<^verbatim>\<open>archive\<close>, each field named after the parameter; \<^verbatim>\<open>three_ps\<close> is
  kept as the three texts.
\<close>

record archive_args =
  arg_session_id :: string
  arg_transcript_path :: string
  arg_archive_dir :: string
  arg_force :: bool
  arg_force_retitle :: bool
  arg_provided_title :: "string option"
  arg_quiet :: bool
  arg_three_ps :: "(string \<times> string \<times> string) option"

text \<open>
  \<^verbatim>\<open>archive\<close>, lines 1250-1276: the two input checks and the change detection. The value is
  the result (\<open>None\<close> for Python's \<^verbatim>\<open>None\<close>, else the output directory) or the exception
  raised, with the file system afterwards. \<^verbatim>\<open>get_project_dir_from_transcript\<close> (line 1260)
  only reads the file system, and its value is used after the change detection only. It
  returns for every transcript that has been read as a file: the one path it fails on, with
  \<^verbatim>\<open>IndexError\<close> at \<^verbatim>\<open>rel_path.parts[0]\<close>, is \<^verbatim>\<open>~/.claude/projects\<close> itself, which is a
  directory. Everything after the change detection, lines 1277-1400
  (title, directory name, renaming, manifest, renderer, metadata, exports, catalog,
  markers, backup), is the parameter \<open>full_archive\<close>: it receives the arguments, the
  transcript text, the manifest as loaded, \<^verbatim>\<open>existing_dir\<close> and \<^verbatim>\<open>output_dir\<close>.
  \<^verbatim>\<open>if existing_dir and ...\<close> tests the truth value of the manifest entry: a missing entry
  and an empty text both fail it.
\<close>

definition archive ::
  "(archive_args \<Rightarrow> string \<Rightarrow> manifest \<Rightarrow> string option \<Rightarrow> string option \<Rightarrow> archive_fs
      \<Rightarrow> (error + string option) \<times> archive_fs)
   \<Rightarrow> archive_args \<Rightarrow> archive_fs \<Rightarrow> (error + string option) \<times> archive_fs" where
  "archive full_archive args fs =
     (case map_of (text_files fs) (path_parts (arg_transcript_path args)) of
        None \<Rightarrow>
          (Inr None,
           log_error (''Transcript not found: '' @ arg_transcript_path args) (arg_quiet args) fs)
      | Some content \<Rightarrow>
          if strip content = [] then
            (Inr None,
             log_error (''Transcript is empty: '' @ arg_transcript_path args) (arg_quiet args) fs)
          else
            (case load_manifest (manifest_file fs) of
               Inl e \<Rightarrow> (Inl e, fs)
             | Inr manifest \<Rightarrow>
                 (let existing_dir = map_of manifest (arg_session_id args) in
                  case existing_dir of
                    None \<Rightarrow> full_archive args content manifest existing_dir None fs
                  | Some dir \<Rightarrow>
                      if dir \<noteq> [] \<and> \<not> arg_force_retitle args \<and> \<not> arg_force args then
                        (let marker_file = path_parts dir @ [''.last_size''];
                             current_size = st_size content
                         in case map_of (text_files fs) marker_file of
                              None \<Rightarrow>
                                full_archive args content manifest existing_dir (Some dir) fs
                            | Some marker \<Rightarrow>
                                (case py_int marker of
                                   None \<Rightarrow> (Inl ValueError, fs)
                                 | Some last_size \<Rightarrow>
                                     if current_size = last_size then (Inr None, fs)
                                     else full_archive args content manifest existing_dir
                                            (Some dir) fs))
                      else full_archive args content manifest existing_dir None fs)))"

text \<open>
  A stand-in for the rest of the operation, for running the model: it records the
  session in the manifest and writes the size marker, as lines 1299-1300 and 1395 do.
\<close>

definition sample_full_archive ::
  "archive_args \<Rightarrow> string \<Rightarrow> manifest \<Rightarrow> string option \<Rightarrow> string option \<Rightarrow> archive_fs
     \<Rightarrow> (error + string option) \<times> archive_fs" where
  "sample_full_archive args content manifest existing_dir output_dir fs =
     (let dir = (case output_dir of
                   None \<Rightarrow> arg_archive_dir args @ ''/'' @ take 8 (arg_session_id args)
                 | Some d \<Rightarrow> d)
      in (Inr (Some dir),
          fs\<lparr>manifest_file :=
                save_manifest ((arg_session_id args, dir)
                               # filter (\<lambda>kv. fst kv \<noteq> arg_session_id args) manifest),
              text_files :=
                (path_parts dir @ [''.last_size''], ''0'')
                # filter (\<lambda>kv. fst kv \<noteq> path_parts dir @ [''.last_size''])
                    (text_files fs)\<rparr>))"

text \<open>An archive directory after one run on a transcript of 12 bytes.\<close>

definition sample_fs :: archive_fs where
  "sample_fs =
     \<lparr>manifest_file = Valid [(''test-session'', ''/archives/2026-01-14-hello'')],
      catalog_file = Absent,
      text_files = [([''tmp'', ''transcript.jsonl''], ''{\"type\": 1}\<newline>''),
                    ([''archives'', ''2026-01-14-hello'', ''.last_size''], ''12''),
                    ([''archives'', ''2026-01-14-hello'', ''.title''], ''hello'')],
      stderr = []\<rparr>"

definition sample_args :: archive_args where
  "sample_args =
     \<lparr>arg_session_id = ''test-session'', arg_transcript_path = ''/tmp/transcript.jsonl'',
      arg_archive_dir = ''/archives'', arg_force = False, arg_force_retitle = False,
      arg_provided_title = None, arg_quiet = True, arg_three_ps = None\<rparr>"

section \<open>Statistics accumulator\<close>

text \<open>
  The \<^verbatim>\<open>stats\<close> dict of \<^verbatim>\<open>extract_session_stats\<close>: the counters, token totals, model and
  version, which the function returns as they are, and during the scan the list
  \<^verbatim>\<open>timestamps\<close>, which is replaced at the end by \<^verbatim>\<open>started_at\<close>, \<^verbatim>\<open>ended_at\<close> and
  \<^verbatim>\<open>duration_minutes\<close>. \<^verbatim>\<open>model\<close> and \<^verbatim>\<open>claude_code_version\<close> hold \<open>JNull\<close> for \<^verbatim>\<open>None\<close>.
\<close>

record stats_counts =
  turns :: int
  human_messages :: int
  assistant_messages :: int
  thinking_blocks :: int
  tool_calls_total :: int
  tool_calls_by_type :: "(json \<times> int) list"
  tokens_input :: int
  tokens_output :: int
  tokens_cache_read :: int
  model :: json
  claude_code_version :: json

record stats_acc = stats_counts +
  timestamps :: "string list"

record session_stats = stats_counts +
  started_at :: "string option"
  ended_at :: "string option"
  duration_minutes :: int

definition initial_stats :: stats_acc where
  "initial_stats =
     \<lparr>turns = 0, human_messages = 0, assistant_messages = 0, thinking_blocks = 0,
      tool_calls_total = 0, tool_calls_by_type = [], tokens_input = 0, tokens_output = 0,
      tokens_cache_read = 0, model = JNull, claude_code_version = JNull,
      timestamps = []\<rparr>"

text \<open>
  \<^verbatim>\<open>by_type[tool_name] = by_type.get(tool_name, 0) + 1\<close>. A dict finds a key by equality,
  under which \<^verbatim>\<open>True\<close> is \<^verbatim>\<open>1\<close> and \<^verbatim>\<open>False\<close> is \<^verbatim>\<open>0\<close>, and keeps the key it was first
  given; a list or dict as key raises \<^verbatim>\<open>TypeError\<close>.
\<close>

fun key_number :: "json \<Rightarrow> int option" where
  "key_number (JBool b) = Some (if b then 1 else 0)"
| "key_number (JNum n) = Some n"
| "key_number _ = None"

definition key_eq :: "json \<Rightarrow> json \<Rightarrow> bool" where
  "key_eq a b = (a = b \<or> (key_number a \<noteq> None \<and> key_number a = key_number b))"

fun count_tool :: "json \<Rightarrow> (json \<times> int) list \<Rightarrow> (json \<times> int) list" where
  "count_tool k [] = [(k, 1)]"
| "count_tool k ((k', n) # h) =
     (if key_eq k k' then (k', n + 1) # h else (k', n) # count_tool k h)"

fun hashable :: "json \<Rightarrow> bool" where
  "hashable (JList xs) = False"
| "hashable (JDict kvs) = False"
| "hashable _ = True"

text \<open>The body of \<^verbatim>\<open>for block in msg_content\<close>, lines 399-410.\<close>

definition stats_block :: "stats_acc \<Rightarrow> json \<Rightarrow> error + stats_acc" where
  "stats_block acc block =
     (case block of
        JDict kvs \<Rightarrow>
          (let block_type = (case map_of kvs ''type'' of None \<Rightarrow> JNull | Some t \<Rightarrow> t) in
           if block_type = JStr ''thinking''
           then Inr (acc\<lparr>thinking_blocks := thinking_blocks acc + 1\<rparr>)
           else if block_type = JStr ''tool_use''
           then (let tool_name =
                       (case map_of kvs ''name'' of None \<Rightarrow> JStr ''unknown'' | Some n \<Rightarrow> n)
                 in if hashable tool_name
                    then Inr (acc\<lparr>tool_calls_total := tool_calls_total acc + 1,
                                   tool_calls_by_type :=
                                     count_tool tool_name (tool_calls_by_type acc)\<rparr>)
                    else Inl TypeError)
           else Inr acc)
      | _ \<Rightarrow> Inr acc)"

fun stats_blocks :: "stats_acc \<Rightarrow> json list \<Rightarrow> error + stats_acc" where
  "stats_blocks acc [] = Inr acc"
| "stats_blocks acc (b # bs) =
     (case stats_block acc b of Inl e \<Rightarrow> Inl e | Inr acc' \<Rightarrow> stats_blocks acc' bs)"

text \<open>
  \<^verbatim>\<open>tokens[k] += usage.get(key, 0)\<close>: an int is added, a bool as 0 or 1; any other value raises
  \<^verbatim>\<open>TypeError\<close>.
\<close>

definition add_tokens :: "int \<Rightarrow> (string \<times> json) list \<Rightarrow> string \<Rightarrow> error + int" where
  "add_tokens tokens usage k =
     (case map_of usage k of
        None \<Rightarrow> Inr tokens
      | Some v \<Rightarrow> (case key_number v of None \<Rightarrow> Inl TypeError | Some n \<Rightarrow> Inr (tokens + n)))"

text \<open>Lines 425-429.\<close>

definition stats_usage :: "stats_acc \<Rightarrow> json \<Rightarrow> error + stats_acc" where
  "stats_usage acc entry =
     (case py_get entry ''usage'' (JDict []) of Inl e \<Rightarrow> Inl e | Inr usage \<Rightarrow>
      if \<not> truthy usage then Inr acc
      else
        (case usage of
           JDict kvs \<Rightarrow>
             (case add_tokens (tokens_input acc) kvs ''input_tokens'' of
                Inl e \<Rightarrow> Inl e | Inr i \<Rightarrow>
              case add_tokens (tokens_output acc) kvs ''output_tokens'' of
                Inl e \<Rightarrow> Inl e | Inr out \<Rightarrow>
              case add_tokens (tokens_cache_read acc) kvs ''cache_read_input_tokens'' of
                Inl e \<Rightarrow> Inl e | Inr c \<Rightarrow>
              Inr (acc\<lparr>tokens_input := i, tokens_output := out, tokens_cache_read := c\<rparr>))
         | _ \<Rightarrow> Inl AttributeError))"

text \<open>Lines 419-422.\<close>

definition stats_version :: "stats_acc \<Rightarrow> json \<Rightarrow> error + stats_acc" where
  "stats_version acc entry =
     (if \<not> truthy (claude_code_version acc) then
        (case py_get entry ''version'' JNull of Inl e \<Rightarrow> Inl e | Inr version \<Rightarrow>
         if truthy version then Inr (acc\<lparr>claude_code_version := version\<rparr>) else Inr acc)
      else Inr acc)"

text \<open>Lines 389-416, the two role branches.\<close>

definition stats_role :: "stats_acc \<Rightarrow> json \<Rightarrow> json \<Rightarrow> json \<Rightarrow> error + stats_acc" where
  "stats_role acc entry_type message role =
     (if role = JStr ''user'' \<or> entry_type = JStr ''user''
      then Inr (acc\<lparr>human_messages := human_messages acc + 1, turns := turns acc + 1\<rparr>)
      else if role = JStr ''assistant'' \<or> entry_type = JStr ''assistant''
      then
        (let acc = acc\<lparr>assistant_messages := assistant_messages acc + 1\<rparr> in
         case py_get message ''content'' (JList []) of Inl e \<Rightarrow> Inl e | Inr msg_content \<Rightarrow>
         case (case msg_content of JList blocks \<Rightarrow> stats_blocks acc blocks | _ \<Rightarrow> Inr acc) of
           Inl e \<Rightarrow> Inl e
         | Inr acc \<Rightarrow>
             if \<not> truthy (model acc) then
               (case py_get message ''model'' JNull of Inl e \<Rightarrow> Inl e | Inr m \<Rightarrow>
                if truthy m then Inr (acc\<lparr>model := m\<rparr>) else Inr acc)
             else Inr acc)
      else Inr acc)"

text \<open>
  Lines 381-429 for one decoded record: the snapshot gate, the role branches, the version
  and the token usage.
\<close>

definition stats_message :: "stats_acc \<Rightarrow> json \<Rightarrow> error + stats_acc" where
  "stats_message acc entry =
     (case py_get entry ''type'' JNull of Inl e \<Rightarrow> Inl e | Inr entry_type \<Rightarrow>
      if entry_type = JStr ''file-history-snapshot'' then Inr acc
      else
        (case py_get entry ''message'' (JDict []) of Inl e \<Rightarrow> Inl e | Inr message \<Rightarrow>
         case py_get message ''role'' (if truthy entry_type then entry_type else JStr [])
           of Inl e \<Rightarrow> Inl e | Inr role \<Rightarrow>
         case stats_role acc entry_type message role of Inl e \<Rightarrow> Inl e | Inr acc \<Rightarrow>
         case stats_version acc entry of Inl e \<Rightarrow> Inl e | Inr acc \<Rightarrow>
         stats_usage acc entry))"

text \<open>
  The body of the scan for one decoded record, lines 376-429. The timestamp is taken
  before the record type is looked at. A truthy timestamp that is not a \<^verbatim>\<open>str\<close> makes the
  function raise after the scan (\<^verbatim>\<open>TypeError\<close> at \<^verbatim>\<open>min\<close> of mixed values, \<^verbatim>\<open>AttributeError\<close>
  at \<^verbatim>\<open>.replace\<close>); the function has no effect, so the model raises at the record, and
  reports \<^verbatim>\<open>TypeError\<close>.
\<close>

definition stats_entry :: "stats_acc \<Rightarrow> json \<Rightarrow> error + stats_acc" where
  "stats_entry acc entry =
     (case py_get entry ''timestamp'' JNull of Inl e \<Rightarrow> Inl e | Inr ts \<Rightarrow>
      if truthy ts
      then (case ts of
              JStr s \<Rightarrow> stats_message (acc\<lparr>timestamps := timestamps acc @ [s]\<rparr>) entry
            | _ \<Rightarrow> Inl TypeError)
      else stats_message acc entry)"

fun scan_stats :: "stats_acc \<Rightarrow> line list \<Rightarrow> error + stats_acc" where
  "scan_stats acc [] = Inr acc"
| "scan_stats acc (Blank # ls) = scan_stats acc ls"
| "scan_stats acc (Malformed # ls) = scan_stats acc ls"
| "scan_stats acc (Parsed entry # ls) =
     (case stats_entry acc entry of Inl e \<Rightarrow> Inl e | Inr acc' \<Rightarrow> scan_stats acc' ls)"

text \<open>
  Lines 431-447. \<^verbatim>\<open>min\<close> and \<^verbatim>\<open>max\<close> compare the texts by code points. The date arithmetic
  of the library is a parameter: \<open>minutes_between start end\<close> is
  \<^verbatim>\<open>int((end - start).total_seconds() / 60)\<close> for the two texts that \<^verbatim>\<open>fromisoformat\<close> is
  given (with every \<^verbatim>\<open>Z\<close> replaced by \<^verbatim>\<open>+00:00\<close>), or \<open>None\<close> when \<^verbatim>\<open>ValueError\<close> or
  \<^verbatim>\<open>TypeError\<close> is raised on the way.
\<close>

definition replace_Z :: "string \<Rightarrow> string" where
  "replace_Z s = concat (map (\<lambda>c. if c = CHR ''Z'' then ''+00:00'' else [c]) s)"

definition finish_stats ::
  "(string \<Rightarrow> string \<Rightarrow> int option) \<Rightarrow> stats_acc \<Rightarrow> session_stats" where
  "finish_stats minutes_between acc =
     (let first_ts = (if timestamps acc \<noteq> [] then Some (Min (set (timestamps acc))) else None);
          last_ts = (if timestamps acc \<noteq> [] then Some (Max (set (timestamps acc))) else None);
          minutes =
            (case (first_ts, last_ts) of
               (Some s, Some e) \<Rightarrow>
                 (case minutes_between (replace_Z s) (replace_Z e) of
                    Some m \<Rightarrow> m | None \<Rightarrow> 0)
             | _ \<Rightarrow> 0)
      in stats_counts.extend (stats_counts.truncate acc)
           \<lparr>started_at = first_ts, ended_at = last_ts, duration_minutes = minutes\<rparr>)"

definition extract_session_stats ::
  "(string \<Rightarrow> string \<Rightarrow> int option) \<Rightarrow> line list \<Rightarrow> error + session_stats" where
  "extract_session_stats minutes_between content =
     (case scan_stats initial_stats content of
        Inl e \<Rightarrow> Inl e
      | Inr acc \<Rightarrow> Inr (finish_stats minutes_between acc))"

text \<open>
  The date arithmetic on a transcript whose timestamps all lie within one minute: the
  difference is 0 minutes.
\<close>

definition within_a_minute :: "string \<Rightarrow> string \<Rightarrow> int option" where
  "within_a_minute start end = Some 0"

text \<open>
  A snapshot record: a dict whose \<^verbatim>\<open>type\<close> is the snapshot marker. Its timestamp, when it
  has one that is truthy, is a text.
\<close>

definition is_snapshot :: "json \<Rightarrow> bool" where
  "is_snapshot entry =
     (case entry of
        JDict kvs \<Rightarrow>
          map_of kvs ''type'' = Some (JStr ''file-history-snapshot'')
          \<and> (case map_of kvs ''timestamp'' of
                None \<Rightarrow> True
              | Some (JStr s) \<Rightarrow> True
              | Some ts \<Rightarrow> \<not> truthy ts)
      | _ \<Rightarrow> False)"

definition snapshot_timestamp :: "json \<Rightarrow> string list" where
  "snapshot_timestamp entry =
     (case entry of
        JDict kvs \<Rightarrow>
          (case map_of kvs ''timestamp'' of
             Some (JStr s) \<Rightarrow> if s \<noteq> [] then [s] else []
           | _ \<Rightarrow> [])
      | _ \<Rightarrow> [])"

text \<open>The snapshot record of the repository's test \<^verbatim>\<open>test_extract_stats_with_file_history_snapshot\<close>.\<close>

definition test_snapshot :: json where
  "test_snapshot =
     JDict [(''type'', JStr ''file-history-snapshot''),
            (''timestamp'', JStr ''2026-01-14T10:00:00.000Z''),
            (''files'', JDict [])]"

text \<open>
  Two statistics records agree on every counter, the tool histogram, the token totals,
  the model and the version.
\<close>

definition same_counts :: "'a stats_counts_scheme \<Rightarrow> 'b stats_counts_scheme \<Rightarrow> bool" where
  "same_counts s s' = (stats_counts.truncate s = stats_counts.truncate s')"

section \<open>Cost estimate\<close>

text \<open>
  A Python \<^verbatim>\<open>float\<close> is an IEEE 754 binary64 number. It is modelled by its exact value, a
  rational number, or as an infinity or a NaN; the sign of zero is not kept (Python's
  \<^verbatim>\<open>==\<close> does not see it either). Every operation computes the exact result and rounds it
  to the nearest binary64 number, ties to the even significand.
\<close>

datatype pyfloat = Finite rat | Infinity bool | NaN

text \<open>Rounding to the nearest integer, ties to even.\<close>

definition round_half_even :: "rat \<Rightarrow> int" where
  "round_half_even x =
     (let n = \<lfloor>x\<rfloor>; d = x - of_int n
      in if d < 1 / 2 then n
         else if 1 / 2 < d then n + 1
         else if even n then n else n + 1)"

definition pow2 :: "int \<Rightarrow> rat" where
  "pow2 e = (if 0 \<le> e then 2 ^ nat e else 1 / 2 ^ nat (- e))"

text \<open>The number of binary digits of a natural number.\<close>

fun bit_length :: "nat \<Rightarrow> nat" where
  "bit_length n = (if n = 0 then 0 else Suc (bit_length (n div 2)))"

declare bit_length.simps [simp del]

text \<open>
  For \<open>0 < x\<close> the exponent \<open>e\<close> with \<open>2\<^sup>e \<le> x < 2\<^sup>e\<^sup>+\<^sup>1\<close>: from the integer part when
  \<open>1 \<le> x\<close>, from the integer above the inverse otherwise.
\<close>

definition floor_log2 :: "rat \<Rightarrow> int" where
  "floor_log2 x =
     (if 1 \<le> x then int (bit_length (nat \<lfloor>x\<rfloor>)) - 1
      else - int (bit_length (nat (\<lceil>1 / x\<rceil> - 1))))"

text \<open>
  The binary64 number nearest to a rational: 53 significant bits, the exponent of the
  least significant bit not below \<open>-1074\<close> (subnormal range), and an infinity when the
  rounded value reaches \<open>2\<^sup>1\<^sup>0\<^sup>2\<^sup>4\<close>. The flag of \<open>Infinity\<close> is true for the negative one.
\<close>

definition round_to_double :: "rat \<Rightarrow> pyfloat" where
  "round_to_double x =
     (if x = 0 then Finite 0
      else
        (let e = max (floor_log2 \<bar>x\<bar>) (- 1022);
             ulp = pow2 (e - 52);
             r = of_int (round_half_even (x / ulp)) * ulp
         in if pow2 1024 \<le> \<bar>r\<bar> then Infinity (x < 0) else Finite r))"

text \<open>\<^verbatim>\<open>a * b\<close> and \<^verbatim>\<open>a + b\<close> on floats.\<close>

fun float_mul :: "pyfloat \<Rightarrow> pyfloat \<Rightarrow> pyfloat" where
  "float_mul (Finite a) (Finite b) = round_to_double (a * b)"
| "float_mul (Infinity s) (Finite b) = (if b = 0 then NaN else Infinity (s \<noteq> (b < 0)))"
| "float_mul (Finite a) (Infinity t) = (if a = 0 then NaN else Infinity (t \<noteq> (a < 0)))"
| "float_mul (Infinity s) (Infinity t) = Infinity (s \<noteq> t)"
| "float_mul _ _ = NaN"

fun float_add :: "pyfloat \<Rightarrow> pyfloat \<Rightarrow> pyfloat" where
  "float_add (Finite a) (Finite b) = round_to_double (a + b)"
| "float_add (Infinity s) (Finite b) = Infinity s"
| "float_add (Finite a) (Infinity t) = Infinity t"
| "float_add (Infinity s) (Infinity t) = (if s = t then Infinity s else NaN)"
| "float_add _ _ = NaN"

text \<open>
  \<^verbatim>\<open>a / b\<close> on two ints with \<open>b \<noteq> 0\<close>: the quotient correctly rounded; \<^verbatim>\<open>OverflowError\<close> when
  it is too large for a float.
\<close>

datatype arith_error = OverflowError

definition true_divide :: "int \<Rightarrow> int \<Rightarrow> arith_error + pyfloat" where
  "true_divide a b =
     (case round_to_double (of_int a / of_int b) of
        Finite r \<Rightarrow> Inr (Finite r)
      | _ \<Rightarrow> Inl OverflowError)"

text \<open>
  \<^verbatim>\<open>round(x, 4)\<close> on a float: the exact value of \<open>x\<close> is rounded to four decimal places, ties
  to even, and the decimal is converted to the nearest float; infinities and NaN are
  returned as they are.
\<close>

fun py_round :: "pyfloat \<Rightarrow> nat \<Rightarrow> pyfloat" where
  "py_round (Finite x) ndigits =
     round_to_double (of_int (round_half_even (x * 10 ^ ndigits)) / 10 ^ ndigits)"
| "py_round x ndigits = x"

text \<open>Lines 66-69; a float literal is the float nearest to the decimal.\<close>

definition INPUT_PRICE_PER_M :: pyfloat where
  "INPUT_PRICE_PER_M = round_to_double 3"

definition OUTPUT_PRICE_PER_M :: pyfloat where
  "OUTPUT_PRICE_PER_M = round_to_double 15"

definition CACHE_PRICE_PER_M :: pyfloat where
  "CACHE_PRICE_PER_M = round_to_double (3 / 10)"

text \<open>
  \<^verbatim>\<open>estimate_cost\<close>, lines 450-461, on the dict \<^verbatim>\<open>stats["tokens"]\<close> of int totals; a missing
  key counts as 0.
\<close>

definition tokens_get :: "(string \<times> int) list \<Rightarrow> string \<Rightarrow> int" where
  "tokens_get tokens k = (case map_of tokens k of None \<Rightarrow> 0 | Some n \<Rightarrow> n)"

definition estimate_cost :: "(string \<times> int) list \<Rightarrow> arith_error + pyfloat" where
  "estimate_cost tokens =
     (let input_tokens = tokens_get tokens ''input'';
          output_tokens = tokens_get tokens ''output'';
          cache_tokens = tokens_get tokens ''cache_read''
      in case true_divide input_tokens 1000000 of Inl e \<Rightarrow> Inl e | Inr i \<Rightarrow>
         case true_divide output_tokens 1000000 of Inl e \<Rightarrow> Inl e | Inr out \<Rightarrow>
         case true_divide cache_tokens 1000000 of Inl e \<Rightarrow> Inl e | Inr c \<Rightarrow>
         Inr (py_round
                (float_add
                   (float_add (float_mul i INPUT_PRICE_PER_M) (float_mul out OUTPUT_PRICE_PER_M))
                   (float_mul c CACHE_PRICE_PER_M))
                4))"

text \<open>A bound on the error of one rounding of a value below \<open>10\<^sup>8\<close>.\<close>

definition eps :: rat where
  "eps = 100000000 / 2 ^ 53"

section \<open>Properties of the title generator\<close>

lemma generate_title_skip_prefix:
  "list_all title_skips pre \<Longrightarrow>
     generate_title_from_content (pre @ ls) = generate_title_from_content ls"
proof (induction pre)
  case Nil
  then show ?case by simp
next
  case (Cons l pre)
  then show ?case by (cases l) simp_all
qed

lemma strip_Nil [simp]: "strip [] = []"
  by (simp add: strip_def)

lemma title_of_user_text_entry:
  "title_of_entry (user_text_entry s) =
     (if strip s \<noteq> [] \<and> \<not> is_ide_context_message s
      then Inr (Some (title_or_fallback s)) else Inr None)"
  by (cases s) (simp_all add: title_of_entry_def user_text_entry_def)

lemma hello_clean: "title_or_fallback ''Hello can you fix the bug?'' = ''can you fix the bug''"
  by code_simp

lemma hello_accept: "strip ''Hello can you fix the bug?'' \<noteq> [] \<and> \<not> is_ide_context_message ''Hello can you fix the bug?''"
  by code_simp

text \<open>
  Claim C7, as the code has it. When every line before it is passed over, a user message
  with the text \<^verbatim>\<open>Hello can you fix the bug?\<close> gives the title \<^verbatim>\<open>can you fix the bug\<close>,
  whatever follows: the pattern is anchored at the start, so one leading greeting
  (\<^verbatim>\<open>Hello\<close> and the white space after it) is removed and \<^verbatim>\<open>can you\<close> stays; the text is
  then cut at the question mark.
\<close>

theorem generate_title_hello:
  assumes "list_all title_skips pre"
  shows "generate_title_from_content
           (pre @ Parsed (user_text_entry ''Hello can you fix the bug?'') # post)
         = Inr ''can you fix the bug''"
proof -
  have "generate_title_from_content
           (pre @ Parsed (user_text_entry ''Hello can you fix the bug?'') # post)
        = generate_title_from_content
           (Parsed (user_text_entry ''Hello can you fix the bug?'') # post)"
    using assms by (rule generate_title_skip_prefix)
  also have "\<dots> = Inr ''can you fix the bug''"
    using hello_accept by (simp add: title_of_user_text_entry hello_clean)
  finally show ?thesis .
qed

theorem generate_title_hello_witness:
  "list_all title_skips [Blank, Malformed, Parsed (user_text_entry ''<ide_opened_file>x.py</ide_opened_file>''), Parsed (user_text_entry ''ok'')]
   \<and> generate_title_from_content
        ([Blank, Malformed, Parsed (user_text_entry ''<ide_opened_file>x.py</ide_opened_file>''), Parsed (user_text_entry ''ok'')]
          @ Parsed (user_text_entry ''Hello can you fix the bug?'') # [Parsed (user_text_entry ''Another long request'')])
      = Inr ''can you fix the bug''"
proof -
  have h: "list_all title_skips [Blank, Malformed, Parsed (user_text_entry ''<ide_opened_file>x.py</ide_opened_file>''), Parsed (user_text_entry ''ok'')]"
    by code_simp
  show ?thesis using h generate_title_hello [OF h] by simp
qed

theorem generate_title_hello_counterexample:
  "generate_title_from_content [Parsed (user_text_entry ''Hello can you fix the bug?'')]
     \<noteq> Inr ''fix the bug''"
  by code_simp

text \<open>
  Claim C10. A user text that is accepted (after \<^verbatim>\<open>strip\<close> it starts with none of the IDE
  tags and has at least 10 characters) and that the transformation (greeting removed, cut
  at the first terminator, first 60 characters, \<^verbatim>\<open>strip\<close>) turns into the empty text
  gives the title \<^verbatim>\<open>Untitled Session\<close>; the scan stops there, later messages are not
  looked at.
\<close>

theorem generate_title_empty_fallback:
  assumes "list_all title_skips pre"
    and "\<not> list_ex (\<lambda>p. ci_prefix p (strip s)) ide_patterns"
    and "10 \<le> length (strip s)"
    and "clean_title s = []"
  shows "generate_title_from_content (pre @ Parsed (user_text_entry s) # post)
         = Inr ''Untitled Session''"
proof -
  from assms(3) have ne: "strip s \<noteq> []" "s \<noteq> []" by auto
  with assms(2,3) have acc: "\<not> is_ide_context_message s"
    by (simp add: is_ide_context_message_def Let_def)
  have "generate_title_from_content (pre @ Parsed (user_text_entry s) # post)
        = generate_title_from_content (Parsed (user_text_entry s) # post)"
    using assms(1) by (rule generate_title_skip_prefix)
  also have "\<dots> = Inr ''Untitled Session''"
    using ne acc assms(4) by (simp add: title_of_user_text_entry title_or_fallback_def)
  finally show ?thesis .
qed

theorem generate_title_empty_fallback_witness:
  "list_all title_skips [Blank, Parsed (user_text_entry ''ok'')]
   \<and> \<not> list_ex (\<lambda>p. ci_prefix p (strip ''?? what is going on'')) ide_patterns
   \<and> 10 \<le> length (strip ''?? what is going on'')
   \<and> clean_title ''?? what is going on'' = []
   \<and> generate_title_from_content
        ([Blank, Parsed (user_text_entry ''ok'')] @ Parsed (user_text_entry ''?? what is going on'')
           # [Parsed (user_text_entry ''Another long request'')])
      = Inr ''Untitled Session''"
proof -
  have h1: "list_all title_skips [Blank, Parsed (user_text_entry ''ok'')]" by code_simp
  have h2: "\<not> list_ex (\<lambda>p. ci_prefix p (strip ''?? what is going on'')) ide_patterns" by code_simp
  have h3: "10 \<le> length (strip ''?? what is going on'')" by code_simp
  have h4: "clean_title ''?? what is going on'' = []" by code_simp
  show ?thesis using h1 h2 h3 h4 generate_title_empty_fallback [OF h1 h2 h3 h4] by simp
qed

section \<open>Properties of the artifact extractor\<close>

lemma py_get_Inr_iff:
  "py_get x k d = Inr v \<longleftrightarrow>
     (\<exists>kvs. x = JDict kvs \<and> v = (case map_of kvs k of None \<Rightarrow> d | Some w \<Rightarrow> w))"
  by (cases x) auto

lemma artifact_block_written:
  "artifact_block acc b = Inr acc' \<Longrightarrow>
     written_files acc' = written_files acc \<union> set_option (block_path ''Write'' b)"
  unfolding artifact_block_def block_path_def add_file_def
  by (cases b) (auto simp: py_get_Inr_iff split: option.splits if_splits json.splits sum.splits)

lemma artifact_block_edited:
  "artifact_block acc b = Inr acc' \<Longrightarrow>
     edited_files acc' = edited_files acc \<union> set_option (block_path ''Edit'' b)"
  unfolding artifact_block_def block_path_def add_file_def
  by (cases b) (auto simp: py_get_Inr_iff split: option.splits if_splits json.splits sum.splits)

lemma artifact_block_read:
  "artifact_block acc b = Inr acc' \<Longrightarrow>
     read_files acc' = read_files acc \<union> set_option (block_path ''Read'' b)"
  unfolding artifact_block_def block_path_def add_file_def
  by (cases b) (auto simp: py_get_Inr_iff split: option.splits if_splits json.splits sum.splits)

lemma blocks_paths_simps [simp]:
  "blocks_paths name [] = {}"
  "blocks_paths name (b # bs) = set_option (block_path name b) \<union> blocks_paths name bs"
  by (simp_all add: blocks_paths_def)

lemma artifact_blocks_fields:
  "artifact_blocks acc bs = Inr acc' \<Longrightarrow>
     written_files acc' = written_files acc \<union> blocks_paths ''Write'' bs
     \<and> edited_files acc' = edited_files acc \<union> blocks_paths ''Edit'' bs
     \<and> read_files acc' = read_files acc \<union> blocks_paths ''Read'' bs"
proof (induction bs arbitrary: acc)
  case Nil
  then show ?case by simp
next
  case (Cons b bs)
  from Cons.prems obtain mid where
    b: "artifact_block acc b = Inr mid" and rest: "artifact_blocks mid bs = Inr acc'"
    by (auto split: sum.splits)
  from Cons.IH [OF rest] artifact_block_written [OF b] artifact_block_edited [OF b]
    artifact_block_read [OF b]
  show ?case by (simp add: Un_assoc)
qed

lemma artifact_entry_blocks:
  "artifact_entry acc entry = Inr acc' \<Longrightarrow>
     artifact_blocks acc (entry_blocks entry) = Inr acc'"
  unfolding artifact_entry_def entry_blocks_def
  by (cases entry)
     (auto simp: py_get_Inr_iff split: option.splits json.splits sum.splits)

lemma tool_paths_simps [simp]:
  "tool_paths name [] = {}"
  "tool_paths name (l # ls) = blocks_paths name (line_blocks l) \<union> tool_paths name ls"
  by (simp_all add: tool_paths_def)

lemma scan_artifacts_fields:
  "scan_artifacts acc content = Inr acc' \<Longrightarrow>
     written_files acc' = written_files acc \<union> tool_paths ''Write'' content
     \<and> edited_files acc' = edited_files acc \<union> tool_paths ''Edit'' content
     \<and> read_files acc' = read_files acc \<union> tool_paths ''Read'' content"
proof (induction acc content rule: scan_artifacts.induct)
  case (1 acc)
  then show ?case by simp
next
  case (2 acc ls)
  then show ?case by simp
next
  case (3 acc ls)
  then show ?case by simp
next
  case (4 acc entry ls)
  from "4.prems" obtain mid where
    e: "artifact_entry acc entry = Inr mid" and rest: "scan_artifacts mid ls = Inr acc'"
    by (auto split: sum.splits)
  from artifact_blocks_fields [OF artifact_entry_blocks [OF e]] "4.IH" [OF e rest]
  show ?case by (simp add: Un_assoc)
qed

lemma finite_tool_paths [simp]: "finite (tool_paths name content)"
  by (simp add: tool_paths_def blocks_paths_def)

lemma scan_from_empty:
  assumes "scan_artifacts no_artifacts content = Inr acc"
  shows "written_files acc = tool_paths ''Write'' content"
    and "edited_files acc = tool_paths ''Edit'' content"
    and "read_files acc = tool_paths ''Read'' content"
  using scan_artifacts_fields [OF assms] by (simp_all add: no_artifacts_def)

lemma extract_artifacts_lists:
  assumes "extract_artifacts resolve content project_dir = Inr out"
  shows "created out = map (artifact_of resolve project_dir)
           (sorted_list_of_set (tool_paths ''Write'' content))"
    and "modified out = map (artifact_of resolve project_dir)
           (sorted_list_of_set (tool_paths ''Edit'' content - tool_paths ''Write'' content))"
    and "referenced out = map (artifact_of resolve project_dir)
           (sorted_list_of_set (tool_paths ''Read'' content - tool_paths ''Edit'' content
              - tool_paths ''Write'' content))"
proof -
  from assms obtain acc where
    scan: "scan_artifacts no_artifacts content = Inr acc"
    by (auto simp: extract_artifacts_def split: sum.splits)
  note f = scan_from_empty [OF scan]
  from assms scan show
    "created out = map (artifact_of resolve project_dir)
           (sorted_list_of_set (tool_paths ''Write'' content))"
    "modified out = map (artifact_of resolve project_dir)
           (sorted_list_of_set (tool_paths ''Edit'' content - tool_paths ''Write'' content))"
    "referenced out = map (artifact_of resolve project_dir)
           (sorted_list_of_set (tool_paths ''Read'' content - tool_paths ''Edit'' content
              - tool_paths ''Write'' content))"
    by (auto simp: extract_artifacts_def Let_def f)
qed


lemma make_relative_None [simp]: "make_relative resolve None p = p"
  by (simp add: make_relative_def)

lemma path_artifact_of [simp]:
  "path (artifact_of resolve project_dir p) = make_relative resolve project_dir p"
  by (simp add: artifact_of_def)

text \<open>
  Claim C1, as the code has it. When the scan returns, the three output lists hold the
  entries of \<open>W\<close>, \<open>E - W\<close> and \<open>R - E - W\<close>, where \<open>W\<close>, \<open>E\<close> and \<open>R\<close> are the non-empty
  \<^verbatim>\<open>file_path\<close> texts of the \<^verbatim>\<open>Write\<close>, \<^verbatim>\<open>Edit\<close> and \<^verbatim>\<open>Read\<close> tool calls of the transcript.
  The set algebra is over the texts as the tool calls give them; the \<^verbatim>\<open>path\<close> field of an
  entry is that text passed through \<^verbatim>\<open>make_relative\<close>. Without a project root the
  \<^verbatim>\<open>path\<close> fields are the texts themselves: the three sets of paths are then pairwise
  disjoint and their union is the set of all paths seen.
\<close>

theorem extract_artifacts_set_algebra:
  assumes "extract_artifacts resolve content project_dir = Inr out"
  shows "set (created out) = artifact_of resolve project_dir ` tool_paths ''Write'' content
       \<and> set (modified out) = artifact_of resolve project_dir `
             (tool_paths ''Edit'' content - tool_paths ''Write'' content)
       \<and> set (referenced out) = artifact_of resolve project_dir `
             (tool_paths ''Read'' content - tool_paths ''Edit'' content
                - tool_paths ''Write'' content)
       \<and> (project_dir = None \<longrightarrow>
             path ` set (created out) = tool_paths ''Write'' content
           \<and> path ` set (modified out)
                = tool_paths ''Edit'' content - tool_paths ''Write'' content
           \<and> path ` set (referenced out)
                = tool_paths ''Read'' content - tool_paths ''Edit'' content
                    - tool_paths ''Write'' content
           \<and> path ` set (created out) \<inter> path ` set (modified out) = {}
           \<and> path ` set (created out) \<inter> path ` set (referenced out) = {}
           \<and> path ` set (modified out) \<inter> path ` set (referenced out) = {}
           \<and> path ` set (created out) \<union> path ` set (modified out)
                \<union> path ` set (referenced out)
               = tool_paths ''Write'' content \<union> tool_paths ''Edit'' content
                   \<union> tool_paths ''Read'' content)"
proof -
  note l = extract_artifacts_lists [OF assms]
  have c: "set (created out) = artifact_of resolve project_dir ` tool_paths ''Write'' content"
    by (simp add: l(1))
  have m: "set (modified out) = artifact_of resolve project_dir `
             (tool_paths ''Edit'' content - tool_paths ''Write'' content)"
    by (simp add: l(2))
  have r: "set (referenced out) = artifact_of resolve project_dir `
             (tool_paths ''Read'' content - tool_paths ''Edit'' content
                - tool_paths ''Write'' content)"
    by (simp add: l(3))
  have id: "path ` artifact_of resolve None ` S = S" for S
    by (simp add: image_image)
  show ?thesis
  proof (cases project_dir)
    case None
    have pc: "path ` set (created out) = tool_paths ''Write'' content"
      using c id by (simp add: None)
    have pm: "path ` set (modified out)
                = tool_paths ''Edit'' content - tool_paths ''Write'' content"
      using m id by (simp add: None)
    have pr: "path ` set (referenced out)
                = tool_paths ''Read'' content - tool_paths ''Edit'' content
                    - tool_paths ''Write'' content"
      using r id by (simp add: None)
    from c m r show ?thesis unfolding pc pm pr by blast
  next
    case (Some root)
    with c m r show ?thesis by simp
  qed
qed

theorem extract_artifacts_set_algebra_witness:
  "extract_artifacts lexical_resolve
     [assistant_event [tool_use ''Read'' ''/p/main.py'', tool_use ''Read'' ''/p/notes.md''],
      Malformed,
      assistant_event [tool_use ''Edit'' ''/p/main.py'', tool_use ''Write'' ''/p/new.py'',
                       tool_use ''Edit'' ''/p/new.py'']] None
   = Inr \<lparr>created = [\<lparr>path = ''/p/new.py'', type = ''code''\<rparr>],
           modified = [\<lparr>path = ''/p/main.py'', type = ''code''\<rparr>],
           referenced = [\<lparr>path = ''/p/notes.md'', type = ''document''\<rparr>]\<rparr>
   \<and> path ` set [\<lparr>path = ''/p/new.py'', type = ''code''\<rparr>]
       \<inter> path ` set [\<lparr>path = ''/p/main.py'', type = ''code''\<rparr>] = {}"
proof -
  let ?c = "[assistant_event [tool_use ''Read'' ''/p/main.py'', tool_use ''Read'' ''/p/notes.md''],
      Malformed,
      assistant_event [tool_use ''Edit'' ''/p/main.py'', tool_use ''Write'' ''/p/new.py'',
                       tool_use ''Edit'' ''/p/new.py'']]"
  let ?out = "\<lparr>created = [\<lparr>path = ''/p/new.py'', type = ''code''\<rparr>],
           modified = [\<lparr>path = ''/p/main.py'', type = ''code''\<rparr>],
           referenced = [\<lparr>path = ''/p/notes.md'', type = ''document''\<rparr>]\<rparr>"
  have h: "extract_artifacts lexical_resolve ?c None = Inr ?out"
    by code_simp
  from extract_artifacts_set_algebra [OF h]
  have "path ` set (created ?out) \<inter> path ` set (modified ?out) = {}"
    by blast
  then have "path ` set [\<lparr>path = ''/p/new.py'', type = ''code''\<rparr>]
       \<inter> path ` set [\<lparr>path = ''/p/main.py'', type = ''code''\<rparr>] = {}"
    by simp
  with h show ?thesis by (rule conjI)
qed

theorem extract_artifacts_set_algebra_counterexample:
  "extract_artifacts lexical_resolve
     [assistant_event [tool_use ''Write'' ''/p/a.py'', tool_use ''Edit'' ''/p/./a.py'']]
     (Some ''/p'')
   = Inr \<lparr>created = [\<lparr>path = ''a.py'', type = ''code''\<rparr>],
           modified = [\<lparr>path = ''a.py'', type = ''code''\<rparr>],
           referenced = []\<rparr>
   \<and> path ` set [\<lparr>path = ''a.py'', type = ''code''\<rparr>]
       \<inter> path ` set [\<lparr>path = ''a.py'', type = ''code''\<rparr>] \<noteq> {}"
  by code_simp

lemma artifact_entry_event:
  "artifact_entry acc (event role entry_type blocks) = artifact_blocks acc blocks"
  by (simp add: artifact_entry_def event_def)

lemma scan_artifacts_roles:
  "scan_artifacts acc (map (\<lambda>(role, entry_type, blocks). Parsed (event role entry_type blocks)) evs)
   = scan_artifacts acc (map (\<lambda>(role, entry_type, blocks). assistant_event blocks) evs)"
proof (induction evs arbitrary: acc)
  case Nil
  then show ?case by simp
next
  case (Cons ev evs)
  obtain role entry_type blocks where ev: "ev = (role, entry_type, blocks)"
    by (cases ev)
  show ?case
    by (simp add: ev assistant_event_def artifact_entry_event Cons.IH split: sum.splits)
qed

text \<open>
  Claim C5, as the code has it. The artifact extractor reads neither the role nor the type
  of a record: the content blocks of a record are scanned whatever its role and type are,
  and the result for a transcript is the one obtained when every record is given the
  assistant role.
\<close>

theorem extract_artifacts_any_role:
  "artifact_entry acc (event role entry_type blocks) = artifact_blocks acc blocks
   \<and> extract_artifacts resolve
        (map (\<lambda>(role, entry_type, blocks). Parsed (event role entry_type blocks)) evs)
        project_dir
     = extract_artifacts resolve
        (map (\<lambda>(role, entry_type, blocks). assistant_event blocks) evs) project_dir"
  by (simp add: artifact_entry_event extract_artifacts_def scan_artifacts_roles)

theorem extract_artifacts_any_role_counterexample:
  "extract_artifacts lexical_resolve
     [Parsed (event (JStr ''user'') (JStr ''user'') [tool_use ''Write'' ''/a.py''])] None
   = Inr \<lparr>created = [\<lparr>path = ''/a.py'', type = ''code''\<rparr>], modified = [],
           referenced = []\<rparr>"
  by code_simp

text \<open>
  Claim C6, as the code has it. Each output list is in the order of the sorted
  \<^verbatim>\<open>file_path\<close> texts as the tool calls give them, and each \<^verbatim>\<open>path\<close> field is that text
  passed through \<^verbatim>\<open>make_relative\<close>. Without a project root the \<^verbatim>\<open>path\<close> fields are the
  texts themselves, and each list is sorted by \<^verbatim>\<open>path\<close>, without repetition.
\<close>

theorem extract_artifacts_order:
  assumes "extract_artifacts resolve content project_dir = Inr out"
  shows "map path (created out)
           = map (make_relative resolve project_dir)
               (sorted_list_of_set (tool_paths ''Write'' content))
       \<and> map path (modified out)
           = map (make_relative resolve project_dir)
               (sorted_list_of_set (tool_paths ''Edit'' content - tool_paths ''Write'' content))
       \<and> map path (referenced out)
           = map (make_relative resolve project_dir)
               (sorted_list_of_set (tool_paths ''Read'' content - tool_paths ''Edit'' content
                  - tool_paths ''Write'' content))
       \<and> (project_dir = None \<longrightarrow>
             sorted (map path (created out)) \<and> distinct (map path (created out))
           \<and> sorted (map path (modified out)) \<and> distinct (map path (modified out))
           \<and> sorted (map path (referenced out)) \<and> distinct (map path (referenced out)))"
proof -
  note l = extract_artifacts_lists [OF assms]
  have m: "map path (map (artifact_of resolve project_dir) xs)
             = map (make_relative resolve project_dir) xs" for xs
    by (simp add: comp_def)
  have n: "map (make_relative resolve None) xs = xs" for xs
    by (simp add: map_idI)
  show ?thesis
  proof (cases project_dir)
    case None
    show ?thesis unfolding l m unfolding None n by simp
  next
    case (Some root)
    show ?thesis unfolding l m using Some by simp
  qed
qed

theorem extract_artifacts_order_witness:
  "extract_artifacts lexical_resolve
     [assistant_event [tool_use ''Write'' ''/q.py'', tool_use ''Write'' ''/p/z.py'']] None
   = Inr \<lparr>created = [\<lparr>path = ''/p/z.py'', type = ''code''\<rparr>,
                      \<lparr>path = ''/q.py'', type = ''code''\<rparr>],
           modified = [], referenced = []\<rparr>
   \<and> sorted [''/p/z.py'', ''/q.py'']"
proof -
  let ?out = "\<lparr>created = [\<lparr>path = ''/p/z.py'', type = ''code''\<rparr>,
                      \<lparr>path = ''/q.py'', type = ''code''\<rparr>],
           modified = [], referenced = []\<rparr>"
  have h: "extract_artifacts lexical_resolve
     [assistant_event [tool_use ''Write'' ''/q.py'', tool_use ''Write'' ''/p/z.py'']] None
     = Inr ?out"
    by code_simp
  from extract_artifacts_order [OF h]
  have "sorted (map path (created ?out))" by blast
  then have "sorted [''/p/z.py'', ''/q.py'']" by simp
  with h show ?thesis by (rule conjI)
qed

theorem extract_artifacts_order_counterexample:
  "extract_artifacts lexical_resolve
     [assistant_event [tool_use ''Write'' ''/q.py'', tool_use ''Write'' ''/p/z.py'']]
     (Some ''/p'')
   = Inr \<lparr>created = [\<lparr>path = ''z.py'', type = ''code''\<rparr>,
                      \<lparr>path = ''/q.py'', type = ''code''\<rparr>],
           modified = [], referenced = []\<rparr>
   \<and> \<not> sorted [''z.py'', ''/q.py'']"
  by code_simp

section \<open>Properties of the catalog store\<close>

lemma existing_ids_None: "existing_ids ss k = None \<longleftrightarrow> k \<notin> entry_id ` set ss"
proof -
  have "fst ` set (zip (map entry_id ss) [0..<length ss]) = entry_id ` set ss"
    by (metis diff_zero length_map length_upt map_fst_zip set_map)
  then show ?thesis
    by (simp add: existing_ids_def map_of_eq_None_iff)
qed

lemma existing_ids_Some:
  assumes "existing_ids ss k = Some i"
  shows "i < length ss \<and> entry_id (ss ! i) = k"
proof -
  from assms have "(k, i) \<in> set (zip (map entry_id ss) [0..<length ss])"
    by (auto simp: existing_ids_def dest: map_of_SomeD)
  then obtain j where "j < length ss" "map entry_id ss ! j = k" "[0..<length ss] ! j = i"
    by (auto simp: in_set_zip)
  then show ?thesis by simp
qed

lemma put_entry_ids:
  "distinct (map entry_id ss) \<Longrightarrow> distinct (map entry_id (put_entry e ss))"
proof (cases "existing_ids ss (entry_id e)")
  case None
  assume d: "distinct (map entry_id ss)"
  from None have "entry_id e \<notin> entry_id ` set ss"
    by (simp add: existing_ids_None)
  with d show ?thesis
    by (simp add: put_entry_def None)
next
  case (Some i)
  assume d: "distinct (map entry_id ss)"
  from existing_ids_Some [OF Some] have "(map entry_id ss)[i := entry_id e] = map entry_id ss"
    by (metis list_update_id nth_map)
  with d Some show ?thesis
    by (simp add: put_entry_def map_update)
qed

lemma put_entry_set: "set (put_entry e ss) \<subseteq> insert e (set ss)"
  by (auto simp: put_entry_def split: option.splits dest: set_update_subset_insert [THEN subsetD])

lemma put_entry_mem: "e \<in> set (put_entry e ss)"
  by (auto simp: put_entry_def split: option.splits dest: existing_ids_Some intro: set_update_memI)

lemma put_entry_length:
  "length (put_entry e ss)
     = (if entry_id e \<in> entry_id ` set ss then length ss else Suc (length ss))"
proof (cases "existing_ids ss (entry_id e)")
  case None
  then have "entry_id e \<notin> entry_id ` set ss"
    by (simp add: existing_ids_None)
  then show ?thesis by (simp add: put_entry_def None)
next
  case (Some i)
  then have "entry_id e \<in> entry_id ` set ss"
    using existing_ids_None [of ss "entry_id e"] by simp
  with Some show ?thesis by (simp add: put_entry_def)
qed

lemma sort_newest_first_set [simp]: "set (sort_newest_first ss) = set ss"
  by (simp add: sort_newest_first_def)

lemma sort_newest_first_length [simp]: "length (sort_newest_first ss) = length ss"
  by (simp add: sort_newest_first_def)

lemma sort_newest_first_ids:
  "distinct (map entry_id (sort_newest_first ss)) = distinct (map entry_id ss)"
  by (simp add: sort_newest_first_def distinct_map)

lemma catalog_ok_step: "catalog_ok ss \<Longrightarrow> catalog_ok (sort_newest_first (put_entry (new_entry md) ss))"
  unfolding catalog_ok_def list_all_iff
  using put_entry_set [of "new_entry md" ss]
  by (auto simp: sort_newest_first_ids put_entry_ids new_entry_def)

lemma load_catalog_ok:
  "disk = Absent \<or> disk = Garbled \<or> file_ok disk \<Longrightarrow>
     catalog_ok (sessions (load_catalog archive_dir disk))"
  by (cases disk) (auto simp: default_catalog_def catalog_ok_def)

lemma update_catalog_ok:
  "disk = Absent \<or> disk = Garbled \<or> file_ok disk \<Longrightarrow>
     file_ok (update_catalog archive_dir now md disk)"
  by (simp add: update_catalog_def Let_def save_catalog_def catalog_ok_step load_catalog_ok)

lemma update_catalog_all_ok:
  "file_ok disk \<Longrightarrow> file_ok (update_catalog_all archive_dir calls disk)"
proof (induction calls arbitrary: disk)
  case Nil
  then show ?case by simp
next
  case (Cons call calls)
  obtain now md where call: "call = (now, md)" by (cases call)
  from Cons.prems have "file_ok (update_catalog archive_dir now md disk)"
    by (simp add: update_catalog_ok)
  from Cons.IH [OF this] show ?case by (simp add: call)
qed

lemma counts_for_review_filter:
  "list_all (\<lambda>s. needs_review s \<noteq> None) ss \<Longrightarrow>
     filter counts_for_review ss = filter (\<lambda>s. needs_review s = Some True) ss"
  by (rule filter_cong) (auto simp: list_all_iff counts_for_review_def)

lemma update_catalog_sessions:
  "\<exists>c'. update_catalog archive_dir now md (Valid c) = Valid c'
        \<and> new_entry md \<in> set (sessions c')
        \<and> length (sessions c')
            = (if session_id md \<in> entry_id ` set (sessions c) then length (sessions c)
               else Suc (length (sessions c)))"
  using put_entry_length [of "new_entry md" "sessions c"]
  by (simp add: update_catalog_def Let_def save_catalog_def put_entry_mem new_entry_def)

text \<open>
  Claim C2. Start from a missing catalog file or from the default catalog and run one or
  more \<^verbatim>\<open>update_catalog\<close> calls. The file then holds a catalog whose \<^verbatim>\<open>total_sessions\<close> is
  the length of its entry list, whose \<^verbatim>\<open>needs_review_count\<close> is the number of entries with
  \<^verbatim>\<open>needs_review\<close> true, and whose entries have distinct ids. One more update puts its
  entry into the list; the list keeps its length when the id was already there (the old
  entry is replaced) and grows by one otherwise.
\<close>

theorem update_catalog_integrity:
  assumes "disk = Absent \<or> disk = Valid (default_catalog archive_dir)"
  shows "\<exists>c. update_catalog_all archive_dir (call # calls) disk = Valid c
           \<and> total_sessions c = length (sessions c)
           \<and> needs_review_count c
               = length (filter (\<lambda>s. needs_review s = Some True) (sessions c))
           \<and> distinct (map entry_id (sessions c))
           \<and> (\<forall>now md. \<exists>c'. update_catalog archive_dir now md (Valid c) = Valid c'
                 \<and> new_entry md \<in> set (sessions c')
                 \<and> length (sessions c')
                     = (if session_id md \<in> entry_id ` set (sessions c)
                        then length (sessions c) else Suc (length (sessions c))))"
proof -
  obtain now md where call: "call = (now, md)" by (cases call)
  from assms have "disk = Absent \<or> disk = Garbled \<or> file_ok disk"
    by (auto simp: default_catalog_def catalog_ok_def)
  then have "file_ok (update_catalog archive_dir now md disk)"
    by (rule update_catalog_ok)
  then have ok: "file_ok (update_catalog_all archive_dir (call # calls) disk)"
    by (simp add: call update_catalog_all_ok)
  then obtain c where c: "update_catalog_all archive_dir (call # calls) disk = Valid c"
    by (cases "update_catalog_all archive_dir (call # calls) disk") simp_all
  from ok c have "catalog_ok (sessions c)" "total_sessions c = length (sessions c)"
    "needs_review_count c = length (filter counts_for_review (sessions c))"
    by simp_all
  then have "total_sessions c = length (sessions c)"
    "needs_review_count c = length (filter (\<lambda>s. needs_review s = Some True) (sessions c))"
    "distinct (map entry_id (sessions c))"
    by (simp_all add: catalog_ok_def counts_for_review_filter)
  with c update_catalog_sessions [of archive_dir _ _ c] show ?thesis by blast
qed


theorem update_catalog_integrity_witness:
  "(Absent = Absent \<or> Absent = Valid (default_catalog ''/a''))
   \<and> (\<exists>c. update_catalog_all ''/a''
            ((''t1'', sample_metadata ''s1'' (Some ''2026-01-14T10:00:00Z'') True)
             # [(''t2'', sample_metadata ''s2'' None True),
                (''t3'', sample_metadata ''s3'' (Some ''2026-02-01T09:00:00Z'') False),
                (''t4'', sample_metadata ''s1'' (Some ''2026-01-14T10:00:00Z'') False)])
            Absent = Valid c
          \<and> map entry_id (sessions c) = [''s3'', ''s1'', ''s2'']
          \<and> total_sessions c = 3 \<and> needs_review_count c = 1
          \<and> total_sessions c = length (sessions c)
          \<and> needs_review_count c
               = length (filter (\<lambda>s. needs_review s = Some True) (sessions c))
          \<and> distinct (map entry_id (sessions c)))"
proof -
  let ?calls = "[(''t2'', sample_metadata ''s2'' None True),
                (''t3'', sample_metadata ''s3'' (Some ''2026-02-01T09:00:00Z'') False),
                (''t4'', sample_metadata ''s1'' (Some ''2026-01-14T10:00:00Z'') False)]"
  let ?call = "(''t1'', sample_metadata ''s1'' (Some ''2026-01-14T10:00:00Z'') True)"
  have h: "Absent = Absent \<or> Absent = Valid (default_catalog ''/a'')"
    by simp
  from update_catalog_integrity [OF h, of ?call ?calls]
  obtain c where c: "update_catalog_all ''/a'' (?call # ?calls) Absent = Valid c"
    and i: "total_sessions c = length (sessions c)"
      "needs_review_count c
         = length (filter (\<lambda>s. needs_review s = Some True) (sessions c))"
      "distinct (map entry_id (sessions c))"
    by blast
  have e: "map entry_id (sessions (case update_catalog_all ''/a'' (?call # ?calls) Absent of
              Valid c \<Rightarrow> c | _ \<Rightarrow> default_catalog ''/a'')) = [''s3'', ''s1'', ''s2'']"
    by code_simp
  have n: "needs_review_count (case update_catalog_all ''/a'' (?call # ?calls) Absent of
              Valid c \<Rightarrow> c | _ \<Rightarrow> default_catalog ''/a'') = 1"
    by code_simp
  have t: "total_sessions (case update_catalog_all ''/a'' (?call # ?calls) Absent of
              Valid c \<Rightarrow> c | _ \<Rightarrow> default_catalog ''/a'') = 3"
    by code_simp
  from e have e': "map entry_id (sessions c) = [''s3'', ''s1'', ''s2'']"
    by (simp only: c stored.case)
  from n have n': "needs_review_count c = 1"
    by (simp only: c stored.case)
  from t have t': "total_sessions c = 3"
    by (simp only: c stored.case)
  from c e' t' n' i have
    "\<exists>c. update_catalog_all ''/a'' (?call # ?calls) Absent = Valid c
          \<and> map entry_id (sessions c) = [''s3'', ''s1'', ''s2'']
          \<and> total_sessions c = 3 \<and> needs_review_count c = 1
          \<and> total_sessions c = length (sessions c)
          \<and> needs_review_count c
               = length (filter (\<lambda>s. needs_review s = Some True) (sessions c))
          \<and> distinct (map entry_id (sessions c))"
    by (intro exI [of _ c] conjI)
  with h show ?thesis by (rule conjI)
qed

lemma load_catalog_garbled: "load_catalog archive_dir Garbled = default_catalog archive_dir"
  by simp

section \<open>Properties of the archive operation and of loading\<close>

lemma log_error_frame [simp]:
  "manifest_file (log_error message q fs) = manifest_file fs"
  "catalog_file (log_error message q fs) = catalog_file fs"
  "text_files (log_error message q fs) = text_files fs"
  by (simp_all add: log_error_def)



lemma archive_forced:
  assumes "map_of (text_files fs) (path_parts (arg_transcript_path args)) = Some content"
    and "strip content \<noteq> []"
    and "manifest_file fs = Valid manifest"
    and "arg_force args \<or> arg_force_retitle args"
  shows "archive full_archive args fs
         = full_archive args content manifest (map_of manifest (arg_session_id args)) None fs"
  using assms by (auto simp: archive_def Let_def split: option.splits)

text \<open>
  A marker that \<^verbatim>\<open>int\<close> refuses makes the operation raise \<^verbatim>\<open>ValueError\<close> at line 1271,
  before anything is written.
\<close>

lemma archive_bad_marker:
  assumes "map_of (text_files fs) (path_parts (arg_transcript_path args)) = Some content"
    and "strip content \<noteq> []"
    and "manifest_file fs = Valid manifest"
    and "map_of manifest (arg_session_id args) = Some dir"
    and "dir \<noteq> []"
    and "\<not> arg_force args"
    and "\<not> arg_force_retitle args"
    and "map_of (text_files fs) (path_parts dir @ [''.last_size'']) = Some marker"
    and "py_int marker = None"
  shows "archive full_archive args fs = (Inl ValueError, fs)"
  using assms by (simp add: archive_def)

lemma py_int_examples:
  "py_int ''12'' = Some 12"
  "py_int (''12'' @ [CHR 0x0A]) = Some 12"
  "py_int ('' -1_000'' @ [CHR 0xA0]) = Some (- 1000)"
  "py_int (''12'' @ [CHR 0x1F]) = None"
  "py_int ([CHR 0x1C] @ ''12'') = None"
  "py_int ''1__2'' = None"
  "py_int ''12.0'' = None"
  "py_int [] = None"
  by code_simp+

lemma split_on_no_sep: "sep \<notin> set s \<Longrightarrow> split_on sep s = [s]"
  by (induction s) auto

lemma int_strip_digits: "list_all is_digit ds \<Longrightarrow> int_strip ds = ds"
proof -
  assume d: "list_all is_digit ds"
  have n: "is_digit c \<Longrightarrow> \<not> is_int_space c" for c
    by (auto simp: is_digit_def is_int_space_def)
  have a: "dropWhile is_int_space xs = xs" if "list_all is_digit xs" for xs
    using that n by (cases xs) auto
  have "list_all is_digit (rev ds)" using d by (simp add: list_all_iff)
  with a [of ds] a [of "rev ds"] d show ?thesis by (simp add: int_strip_def)
qed

text \<open>On a text of digits alone the value is read in base ten, up to 4300 digits.\<close>

lemma py_int_digit_limit:
  assumes "list_all is_digit ds"
  shows "py_int ds = (if ds = [] \<or> 4300 < length ds then None
                      else Some (foldl (\<lambda>acc c. 10 * acc + digit_value c) 0 ds))"
proof (cases ds)
  case Nil
  then show ?thesis by (simp add: py_int_def int_strip_def)
next
  case (Cons c cs)
  have u: "CHR ''_'' \<notin> set ds" using assms by (auto simp: list_all_iff is_digit_def)
  have "is_digit c" using assms Cons by simp
  then have s: "c \<noteq> CHR ''-''" "c \<noteq> CHR ''+''" by (auto simp: is_digit_def)
  have g: "split_on CHR ''_'' (c # cs) = [c # cs]"
    using split_on_no_sep [OF u] Cons by simp
  have i: "int_strip (c # cs) = c # cs" using int_strip_digits [OF assms] Cons by simp
  have d: "list_all is_digit (c # cs)" using assms Cons by simp
  show ?thesis
    using s d g by (simp add: Cons py_int_def i Let_def del: split_on.simps)
qed

lemma archive_separator_marker:
  "archive sample_full_archive sample_args
     (sample_fs\<lparr>text_files := ([''archives'', ''2026-01-14-hello'', ''.last_size''],
                                  ''12'' @ [CHR 0x1F]) # text_files sample_fs\<rparr>)
   = (Inl ValueError,
      sample_fs\<lparr>text_files := ([''archives'', ''2026-01-14-hello'', ''.last_size''],
                                  ''12'' @ [CHR 0x1F]) # text_files sample_fs\<rparr>)"
  by code_simp

lemma archive_corrupt_manifest:
  assumes "map_of (text_files fs) (path_parts (arg_transcript_path args)) = Some content"
    and "strip content \<noteq> []"
    and "manifest_file fs = Garbled"
  shows "archive full_archive args fs = (Inl JSONDecodeError, fs)"
  using assms by (simp add: archive_def)

text \<open>
  Claim C3, at the input where the code departs from it. For a manifest file that is there
  and does not decode, \<^verbatim>\<open>load_manifest\<close> raises \<^verbatim>\<open>JSONDecodeError\<close> instead of returning an
  empty mapping, and an \<^verbatim>\<open>archive\<close> run on that directory ends with this exception.
  \<^verbatim>\<open>load_catalog\<close> on a catalog file that does not decode returns the default catalog.
\<close>

theorem load_manifest_corrupt_raises:
  "load_manifest Garbled = Inl JSONDecodeError
   \<and> load_catalog archive_dir Garbled = default_catalog archive_dir
   \<and> archive sample_full_archive sample_args (sample_fs\<lparr>manifest_file := Garbled\<rparr>)
       = (Inl JSONDecodeError, sample_fs\<lparr>manifest_file := Garbled\<rparr>)"
proof -
  have "archive sample_full_archive sample_args (sample_fs\<lparr>manifest_file := Garbled\<rparr>)
       = (Inl JSONDecodeError, sample_fs\<lparr>manifest_file := Garbled\<rparr>)"
    by code_simp
  then show ?thesis by simp
qed

section \<open>Properties of the statistics accumulator\<close>

lemma stats_block_ts:
  "stats_block (acc\<lparr>timestamps := T\<rparr>) b
     = map_sum id (\<lambda>a. a\<lparr>timestamps := T\<rparr>) (stats_block acc b)"
  by (cases b) (simp_all add: stats_block_def Let_def)

lemma stats_blocks_ts:
  "stats_blocks (acc\<lparr>timestamps := T\<rparr>) bs
     = map_sum id (\<lambda>a. a\<lparr>timestamps := T\<rparr>) (stats_blocks acc bs)"
proof (induction bs arbitrary: acc)
  case Nil
  then show ?case by simp
next
  case (Cons b bs)
  show ?case
    by (cases "stats_block acc b") (simp_all add: stats_block_ts Cons.IH)
qed

lemma stats_role_ts:
  "stats_role (acc\<lparr>timestamps := T\<rparr>) entry_type message role
     = map_sum id (\<lambda>a. a\<lparr>timestamps := T\<rparr>) (stats_role acc entry_type message role)"
proof -
  have upd: "acc\<lparr>timestamps := T, assistant_messages := n\<rparr>
               = acc\<lparr>assistant_messages := n, timestamps := T\<rparr>" for n
    by simp
  show ?thesis
    unfolding stats_role_def Let_def upd stats_blocks_ts
    by (auto split: sum.splits json.splits)
qed

lemma stats_version_ts:
  "stats_version (acc\<lparr>timestamps := T\<rparr>) entry
     = map_sum id (\<lambda>a. a\<lparr>timestamps := T\<rparr>) (stats_version acc entry)"
  by (auto simp: stats_version_def split: sum.splits)

lemma stats_usage_ts:
  "stats_usage (acc\<lparr>timestamps := T\<rparr>) entry
     = map_sum id (\<lambda>a. a\<lparr>timestamps := T\<rparr>) (stats_usage acc entry)"
  by (auto simp: stats_usage_def split: sum.splits json.splits)

lemma stats_message_ts:
  "stats_message (acc\<lparr>timestamps := T\<rparr>) entry
     = map_sum id (\<lambda>a. a\<lparr>timestamps := T\<rparr>) (stats_message acc entry)"
  unfolding stats_message_def stats_role_ts
  by (auto simp: stats_version_ts stats_usage_ts split: sum.splits)


lemma same_counts_ts [simp]: "same_counts acc (acc\<lparr>timestamps := T\<rparr>)"
  by (simp add: same_counts_def stats_counts.defs)

lemma same_counts_acc:
  "same_counts (a::stats_acc) (b::stats_acc) \<Longrightarrow> b = a\<lparr>timestamps := timestamps b\<rparr>"
  by (cases a, cases b) (simp add: same_counts_def stats_counts.defs)

lemma rel_sum_update:
  "rel_sum (=) same_counts x (map_sum id (\<lambda>a::stats_acc. a\<lparr>timestamps := T\<rparr>) x)"
  by (cases x) simp_all

lemma stats_entry_same_counts:
  assumes "same_counts a (b::stats_acc)"
  shows "rel_sum (=) same_counts (stats_entry a entry) (stats_entry b entry)"
proof -
  from assms obtain T where b: "b = a\<lparr>timestamps := T\<rparr>"
    using same_counts_acc by blast
  have m: "rel_sum (=) same_counts (stats_message (a\<lparr>timestamps := U\<rparr>) entry)
             (stats_message (a\<lparr>timestamps := V\<rparr>) entry)" for U V
  proof -
    have "stats_message (a\<lparr>timestamps := V\<rparr>) entry
            = map_sum id (\<lambda>x. x\<lparr>timestamps := V\<rparr>) (stats_message (a\<lparr>timestamps := U\<rparr>) entry)"
      using stats_message_ts [where acc = "a\<lparr>timestamps := U\<rparr>" and T = V and entry = entry]
      by simp
    then show ?thesis by (simp add: rel_sum_update)
  qed
  have m0: "rel_sum (=) same_counts (stats_message a entry)
             (stats_message (a\<lparr>timestamps := V\<rparr>) entry)" for V
    using m [of "timestamps a" V] by simp
  show ?thesis
    unfolding stats_entry_def b
    by (cases "py_get entry ''timestamp'' JNull")
       (auto simp: m m0 split: json.splits)
qed

lemma scan_stats_same_counts:
  "same_counts a (b::stats_acc) \<Longrightarrow>
     rel_sum (=) same_counts (scan_stats a ls) (scan_stats b ls)"
proof (induction a ls arbitrary: b rule: scan_stats.induct)
  case (1 acc)
  then show ?case by simp
next
  case (2 acc ls)
  then show ?case by simp
next
  case (3 acc ls)
  then show ?case by simp
next
  case (4 acc entry ls)
  from stats_entry_same_counts [OF "4.prems", of entry]
  show ?case
    by (cases "stats_entry acc entry"; cases "stats_entry b entry")
       (auto intro: "4.IH")
qed

lemma scan_stats_append:
  "scan_stats acc (xs @ ys)
     = (case scan_stats acc xs of Inl e \<Rightarrow> Inl e | Inr acc' \<Rightarrow> scan_stats acc' ys)"
  by (induction acc xs rule: scan_stats.induct) (simp_all split: sum.splits)

lemma snapshot_step:
  assumes "is_snapshot snapshot"
  shows "stats_entry acc snapshot
           = Inr (acc\<lparr>timestamps := timestamps acc @ snapshot_timestamp snapshot\<rparr>)"
proof -
  from assms obtain kvs where s: "snapshot = JDict kvs"
    and t: "map_of kvs ''type'' = Some (JStr ''file-history-snapshot'')"
    by (cases snapshot) (auto simp: is_snapshot_def)
  have msg: "stats_message a snapshot = Inr a" for a
    by (simp add: stats_message_def s t)
  from assms show ?thesis
    unfolding stats_entry_def msg
    by (auto simp: s is_snapshot_def snapshot_timestamp_def split: option.splits json.splits)
qed

lemma finish_stats_same_counts:
  "same_counts a b \<Longrightarrow> same_counts (finish_stats mb a) (finish_stats mb b)"
  by (simp add: same_counts_def finish_stats_def Let_def stats_counts.defs)

text \<open>
  Claim C4, as the code has it. In the statistics accumulator a snapshot record changes
  nothing but the list of timestamps, to which its timestamp is added when it has one:
  with and without the record the scan raises the same error or returns the same
  counters, tool histogram, token totals, model and version, and a snapshot record
  without a timestamp leaves the whole result unchanged.
\<close>

theorem snapshot_counts_nothing:
  assumes "is_snapshot snapshot"
  shows "stats_entry acc snapshot
           = Inr (acc\<lparr>timestamps := timestamps acc @ snapshot_timestamp snapshot\<rparr>)
       \<and> rel_sum (=) same_counts
           (extract_session_stats minutes_between (pre @ post))
           (extract_session_stats minutes_between (pre @ Parsed snapshot # post))
       \<and> (snapshot_timestamp snapshot = [] \<longrightarrow>
             extract_session_stats minutes_between (pre @ Parsed snapshot # post)
               = extract_session_stats minutes_between (pre @ post))"
proof -
  note step = snapshot_step [OF assms]
  have scan: "scan_stats initial_stats (pre @ Parsed snapshot # post)
      = (case scan_stats initial_stats pre of
           Inl e \<Rightarrow> Inl e
         | Inr a \<Rightarrow> scan_stats (a\<lparr>timestamps := timestamps a @ snapshot_timestamp snapshot\<rparr>) post)"
    by (simp add: scan_stats_append step split: sum.splits)
  have rel: "rel_sum (=) same_counts (scan_stats initial_stats (pre @ post))
               (scan_stats initial_stats (pre @ Parsed snapshot # post))"
    unfolding scan scan_stats_append [of initial_stats pre post]
    by (cases "scan_stats initial_stats pre") (simp_all add: scan_stats_same_counts)
  have r: "rel_sum (=) same_counts
           (extract_session_stats minutes_between (pre @ post))
           (extract_session_stats minutes_between (pre @ Parsed snapshot # post))"
    using rel unfolding extract_session_stats_def
    by (cases "scan_stats initial_stats (pre @ post)";
        cases "scan_stats initial_stats (pre @ Parsed snapshot # post)")
       (simp_all add: finish_stats_same_counts)
  have e: "extract_session_stats minutes_between (pre @ Parsed snapshot # post)
               = extract_session_stats minutes_between (pre @ post)"
    if "snapshot_timestamp snapshot = []"
  proof -
    have same: "a\<lparr>timestamps := timestamps a @ snapshot_timestamp snapshot\<rparr> = a"
      for a :: stats_acc
      by (simp add: that)
    show ?thesis
      unfolding extract_session_stats_def scan same
        scan_stats_append [of initial_stats pre post] ..
  qed
  from step r e show ?thesis by blast
qed

theorem snapshot_counts_nothing_witness:
  "is_snapshot test_snapshot
   \<and> rel_sum (=) same_counts
       (extract_session_stats within_a_minute [Parsed (user_text_entry ''hello'')])
       (extract_session_stats within_a_minute
          ([Parsed (user_text_entry ''hello'')] @ Parsed test_snapshot # []))"
proof -
  have h: "is_snapshot test_snapshot" by code_simp
  from snapshot_counts_nothing [OF h, of _ within_a_minute "[Parsed (user_text_entry ''hello'')]" "[]"]
  have "rel_sum (=) same_counts
       (extract_session_stats within_a_minute ([Parsed (user_text_entry ''hello'')] @ []))
       (extract_session_stats within_a_minute
          ([Parsed (user_text_entry ''hello'')] @ Parsed test_snapshot # []))"
    by blast
  then have "rel_sum (=) same_counts
       (extract_session_stats within_a_minute [Parsed (user_text_entry ''hello'')])
       (extract_session_stats within_a_minute
          ([Parsed (user_text_entry ''hello'')] @ Parsed test_snapshot # []))"
    by (simp only: append_Nil2)
  with h show ?thesis by (rule conjI)
qed

theorem snapshot_counts_nothing_counterexample:
  "extract_session_stats within_a_minute [Parsed test_snapshot]
     \<noteq> extract_session_stats within_a_minute []
   \<and> map_sum id session_stats.started_at (extract_session_stats within_a_minute [Parsed test_snapshot])
       = Inr (Some ''2026-01-14T10:00:00.000Z'')
   \<and> map_sum id session_stats.started_at (extract_session_stats within_a_minute []) = Inr None
   \<and> extract_artifacts lexical_resolve
        [Parsed (event (JStr ''assistant'') (JStr ''file-history-snapshot'')
                   [tool_use ''Write'' ''/a.py''])] None
       = Inr \<lparr>created = [\<lparr>path = ''/a.py'', type = ''code''\<rparr>], modified = [],
               referenced = []\<rparr>"
  by code_simp

section \<open>Properties of the cost estimate\<close>

lemma pow2_powi: "pow2 e = 2 powi e"
  by (simp add: pow2_def power_int_def inverse_eq_divide power_one_over)

lemma pow2_pos [simp]: "0 < pow2 e"
  by (simp add: pow2_powi)

lemma pow2_add: "pow2 (a + b) = pow2 a * pow2 b"
  by (simp add: pow2_powi power_int_add)

lemma pow2_mono: "a \<le> b \<Longrightarrow> pow2 a \<le> pow2 b"
  by (simp add: pow2_powi power_int_increasing)

lemma pow2_strict_mono: "a < b \<Longrightarrow> pow2 a < pow2 b"
  by (simp add: pow2_powi power_int_strict_increasing)

lemma pow2_nat: "pow2 (int n) = 2 ^ n"
  by (simp add: pow2_def)

lemma pow2_neg_nat: "pow2 (- int n) = 1 / 2 ^ n"
  by (simp add: pow2_def)

lemma bit_length_bounds:
  "0 < n \<Longrightarrow> 2 ^ (bit_length n - 1) \<le> n \<and> n < 2 ^ bit_length n"
proof (induction n rule: bit_length.induct)
  case (1 n)
  show ?case
  proof (cases "n div 2 = 0")
    case True
    with "1.prems" have "n = 1" by presburger
    then show ?thesis by (simp add: bit_length.simps)
  next
    case False
    with "1.IH" "1.prems" have ih: "2 ^ (bit_length (n div 2) - 1) \<le> n div 2"
      "n div 2 < 2 ^ bit_length (n div 2)"
      by auto
    from False have pos: "0 < bit_length (n div 2)"
      by (subst bit_length.simps) simp
    have b: "bit_length n = Suc (bit_length (n div 2))"
      using "1.prems" by (subst bit_length.simps) simp
    from pos have p: "(2::nat) ^ bit_length (n div 2) = 2 * 2 ^ (bit_length (n div 2) - 1)"
      by (cases "bit_length (n div 2)") simp_all
    from ih p have "2 ^ bit_length (n div 2) \<le> n" "n < 2 * 2 ^ bit_length (n div 2)"
      by presburger+
    then show ?thesis unfolding b by simp
  qed
qed


lemma floor_log2_ge1:
  assumes "1 \<le> x"
  shows "pow2 (floor_log2 x) \<le> x \<and> x < pow2 (floor_log2 x + 1)"
proof -
  define n where "n = nat \<lfloor>x\<rfloor>"
  from assms have fl: "1 \<le> \<lfloor>x\<rfloor>" by simp
  then have n: "0 < n" "int n = \<lfloor>x\<rfloor>" by (simp_all add: n_def)
  from bit_length_bounds [OF n(1)] have b: "2 ^ (bit_length n - 1) \<le> n" "n < 2 ^ bit_length n"
    by simp_all
  have bpos: "0 < bit_length n"
    using n(1) by (subst bit_length.simps) simp
  have e: "floor_log2 x = int (bit_length n - 1)"
    using assms bpos by (simp add: floor_log2_def n_def of_nat_diff)
  have e1: "floor_log2 x + 1 = int (bit_length n)"
    using bpos unfolding e by simp
  have nx: "(of_nat n::rat) = of_int \<lfloor>x\<rfloor>"
    using n(2) by (metis of_int_of_nat_eq)
  have "(2::rat) ^ (bit_length n - 1) \<le> of_nat n"
    using b(1) by (metis of_nat_le_iff of_nat_numeral of_nat_power)
  also have "\<dots> \<le> x" unfolding nx by (rule of_int_floor_le)
  finally have lo: "2 ^ (bit_length n - 1) \<le> x" .
  have "x < of_nat n + 1" unfolding nx by linarith
  moreover have "of_nat n + 1 \<le> (2::rat) ^ bit_length n"
  proof -
    from b(2) have "Suc n \<le> 2 ^ bit_length n" by simp
    then have "(of_nat (Suc n)::rat) \<le> of_nat (2 ^ bit_length n)"
      by (simp only: of_nat_le_iff)
    then show ?thesis by simp
  qed
  ultimately have hi: "x < 2 ^ bit_length n" by (rule less_le_trans)
  have p0: "pow2 (floor_log2 x) = 2 ^ (bit_length n - 1)"
    by (simp only: e pow2_nat)
  have p1: "pow2 (floor_log2 x + 1) = 2 ^ bit_length n"
    by (simp only: e1 pow2_nat)
  from lo hi show ?thesis unfolding p0 p1 by (rule conjI)
qed

lemma floor_log2_lt1:
  assumes "0 < x" "x < 1"
  shows "pow2 (floor_log2 x) \<le> x \<and> x < pow2 (floor_log2 x + 1)"
proof -
  define y where "y = 1 / x"
  define n where "n = nat (\<lceil>y\<rceil> - 1)"
  from assms have y1: "1 < y" by (simp add: y_def)
  then have c: "2 \<le> \<lceil>y\<rceil>" by linarith
  then have n: "0 < n" "int n = \<lceil>y\<rceil> - 1" by (simp_all add: n_def)
  from bit_length_bounds [OF n(1)] have b: "2 ^ (bit_length n - 1) \<le> n" "n < 2 ^ bit_length n"
    by simp_all
  have bpos: "0 < bit_length n"
    using n(1) by (subst bit_length.simps) simp
  have e: "floor_log2 x = - int (bit_length n)"
    using assms by (simp add: floor_log2_def n_def y_def)
  have e1: "floor_log2 x + 1 = - int (bit_length n - 1)"
    using bpos unfolding e by simp
  have "y \<le> of_int \<lceil>y\<rceil>" by (rule le_of_int_ceiling)
  also have "\<dots> = of_nat n + 1" using n(2) by (metis add.commute diff_add_cancel of_int_1 of_int_add of_int_of_nat_eq add.commute)
  also have "\<dots> \<le> (2::rat) ^ bit_length n"
  proof -
    from b(2) have "Suc n \<le> 2 ^ bit_length n" by simp
    then have "(of_nat (Suc n)::rat) \<le> of_nat (2 ^ bit_length n)"
      by (simp only: of_nat_le_iff)
    then show ?thesis by simp
  qed
  finally have yhi: "y \<le> 2 ^ bit_length n" .
  have "(2::rat) ^ (bit_length n - 1) \<le> of_nat n"
    using b(1) by (metis of_nat_le_iff of_nat_numeral of_nat_power)
  also have "of_nat n = of_int (\<lceil>y\<rceil> - 1)" using n(2) by (metis of_int_of_nat_eq)
  also have "\<dots> < y" by linarith
  finally have ylo: "2 ^ (bit_length n - 1) < y" .
  from yhi assms(1) have lo: "1 / 2 ^ bit_length n \<le> x"
    unfolding y_def by (simp add: field_simps)
  from ylo assms(1) have hi: "x < 1 / 2 ^ (bit_length n - 1)"
    unfolding y_def by (simp add: field_simps)
  have p0: "pow2 (floor_log2 x) = 1 / 2 ^ bit_length n"
    by (simp only: e pow2_neg_nat)
  have p1: "pow2 (floor_log2 x + 1) = 1 / 2 ^ (bit_length n - 1)"
    by (simp only: e1 pow2_neg_nat)
  from lo hi show ?thesis unfolding p0 p1 by (rule conjI)
qed

lemma floor_log2_bounds:
  "0 < x \<Longrightarrow> pow2 (floor_log2 x) \<le> x \<and> x < pow2 (floor_log2 x + 1)"
  using floor_log2_ge1 [of x] floor_log2_lt1 [of x] by (cases "1 \<le> x") simp_all

lemma floor_log2_unique:
  assumes "pow2 e \<le> x" "x < pow2 (e + 1)"
  shows "floor_log2 x = e"
proof -
  from assms(1) have pos: "0 < x" using pow2_pos [of e] by linarith
  note f = floor_log2_bounds [OF pos]
  have "\<not> floor_log2 x < e"
  proof
    assume "floor_log2 x < e"
    then have "pow2 (floor_log2 x + 1) \<le> pow2 e" by (intro pow2_mono) simp
    with f assms(1) show False by linarith
  qed
  moreover have "\<not> e < floor_log2 x"
  proof
    assume "e < floor_log2 x"
    then have "pow2 (e + 1) \<le> pow2 (floor_log2 x)" by (intro pow2_mono) simp
    with f assms(2) show False by linarith
  qed
  ultimately show ?thesis by simp
qed


lemma round_half_even_cert:
  assumes "\<bar>x - of_int m\<bar> < 1 / 2"
  shows "round_half_even x = m"
proof -
  from assms have b: "of_int m - 1 / 2 < x" "x < of_int m + 1 / 2" by linarith+
  then consider "\<lfloor>x\<rfloor> = m" | "\<lfloor>x\<rfloor> = m - 1" by linarith
  then show ?thesis
  proof cases
    case 1
    with assms have "x - of_int \<lfloor>x\<rfloor> < 1 / 2" by linarith
    with 1 show ?thesis by (simp add: round_half_even_def Let_def)
  next
    case 2
    have "1 / 2 < x - of_int \<lfloor>x\<rfloor>" unfolding 2 using b(1) by simp
    then have "\<not> x - of_int \<lfloor>x\<rfloor> < 1 / 2" by linarith
    with \<open>1 / 2 < x - of_int \<lfloor>x\<rfloor>\<close> 2 show ?thesis
      by (simp add: round_half_even_def Let_def)
  qed
qed

lemma round_half_even_of_int [simp]: "round_half_even (of_int m) = m"
  by (rule round_half_even_cert) simp

lemma round_to_double_cert:
  assumes "pow2 e \<le> \<bar>x\<bar>" "\<bar>x\<bar> < pow2 (e + 1)" "- 1022 \<le> e"
    and "\<bar>x / pow2 (e - 52) - of_int m\<bar> < 1 / 2"
    and "\<bar>of_int m * pow2 (e - 52)\<bar> < pow2 1024"
  shows "round_to_double x = Finite (of_int m * pow2 (e - 52))"
proof -
  have "0 < \<bar>x\<bar>" using assms(1) pow2_pos [of e] by linarith
  then have nz: "x \<noteq> 0" by simp
  have fl: "floor_log2 \<bar>x\<bar> = e" using assms(1,2) by (rule floor_log2_unique)
  have mx: "max e (- 1022) = e" using assms(3) by simp
  have rh: "round_half_even (x / pow2 (e - 52)) = m"
    using assms(4) by (rule round_half_even_cert)
  from assms(5) have no: "\<not> pow2 1024 \<le> \<bar>of_int m * pow2 (e - 52)\<bar>" by simp
  show ?thesis
    unfolding round_to_double_def Let_def fl mx rh using nz no by simp
qed

lemma round_to_double_exact:
  assumes "pow2 e \<le> \<bar>x\<bar>" "\<bar>x\<bar> < pow2 (e + 1)" "- 1022 \<le> e" "e \<le> 1023"
    and "x = of_int m * pow2 (e - 52)"
  shows "round_to_double x = Finite x"
proof -
  have "pow2 (e - 52) \<noteq> 0" by (metis less_irrefl pow2_pos)
  then have "x / pow2 (e - 52) = of_int m"
    unfolding assms(5) by simp
  then have c: "\<bar>x / pow2 (e - 52) - of_int m\<bar> < 1 / 2" by simp
  from assms(2,4) have "\<bar>x\<bar> < pow2 1024"
    using pow2_mono [of "e + 1" 1024] by simp
  then have "\<bar>of_int m * pow2 (e - 52)\<bar> < pow2 1024" unfolding assms(5) .
  from round_to_double_cert [OF assms(1,2,3) c this] show ?thesis
    unfolding assms(5) .
qed

lemma double_one: "round_to_double 1 = Finite 1"
  by (rule round_to_double_exact [where e = 0 and m = "2 ^ 52"]) (simp_all add: pow2_def)

lemma double_three: "round_to_double 3 = Finite 3"
  by (rule round_to_double_exact [where e = 1 and m = "3 * 2 ^ 51"]) (simp_all add: pow2_def)

lemma double_fifteen: "round_to_double 15 = Finite 15"
  by (rule round_to_double_exact [where e = 3 and m = "15 * 2 ^ 49"]) (simp_all add: pow2_def)

lemma double_eighteen: "round_to_double 18 = Finite 18"
  by (rule round_to_double_exact [where e = 4 and m = "18 * 2 ^ 48"]) (simp_all add: pow2_def)

lemma double_three_tenths:
  "round_to_double (3 / 10) = Finite (5404319552844595 / 18014398509481984)"
  using round_to_double_cert [where x = "3 / 10" and e = "- 2" and m = 5404319552844595]
  by (simp add: pow2_def)

lemma double_three_tenths_again:
  "round_to_double (5404319552844595 / 18014398509481984)
     = Finite (5404319552844595 / 18014398509481984)"
  using round_to_double_cert [where x = "5404319552844595 / 18014398509481984"
      and e = "- 2" and m = 5404319552844595]
  by (simp add: pow2_def)

lemma double_sum:
  "round_to_double (329663492723520307 / 18014398509481984)
     = Finite (5150992073805005 / 281474976710656)"
  using round_to_double_cert [where x = "329663492723520307 / 18014398509481984"
      and e = 4 and m = 5150992073805005]
  by (simp add: pow2_def)

lemma round_sum:
  "round_half_even (3219370046128128125 / 17592186044416) = 183000"
  by (rule round_half_even_cert) simp

lemma round_half_even_zero [simp]: "round_half_even 0 = 0"
  using round_half_even_of_int [of 0] by simp


lemma round_to_double_zero [simp]: "round_to_double 0 = Finite 0"
  by (simp add: round_to_double_def)

lemma true_divide_million: "true_divide 1000000 1000000 = Inr (Finite 1)"
  by (simp add: true_divide_def double_one)

lemma true_divide_zero: "true_divide 0 1000000 = Inr (Finite 0)"
  by (simp add: true_divide_def)

lemma estimate_cost_million:
  "estimate_cost [(''input'', 1000000), (''output'', 1000000), (''cache_read'', 1000000)]
     = Inr (round_to_double (183 / 10))"
proof -
  have r: "of_int 183000 / 10 ^ 4 = (183 / 10 :: rat)" by simp
  show ?thesis
    unfolding estimate_cost_def tokens_get_def Let_def
    by (simp add: true_divide_million INPUT_PRICE_PER_M_def OUTPUT_PRICE_PER_M_def
        CACHE_PRICE_PER_M_def double_three double_fifteen double_eighteen
        double_three_tenths double_three_tenths_again double_sum round_sum)
qed

lemma estimate_cost_zero:
  "estimate_cost [(''input'', 0), (''output'', 0), (''cache_read'', 0)] = Inr (Finite 0)"
  unfolding estimate_cost_def tokens_get_def Let_def
  by (simp add: true_divide_zero INPUT_PRICE_PER_M_def OUTPUT_PRICE_PER_M_def
        CACHE_PRICE_PER_M_def double_three double_fifteen double_three_tenths)

lemma double_eighteen_three:
  "round_to_double (183 / 10) = Finite (5150992073805005 / 281474976710656)"
  using round_to_double_cert [where x = "183 / 10" and e = 4 and m = 5150992073805005]
  by (simp add: pow2_def)

lemma estimate_cost_four_places:
  assumes "estimate_cost tokens = Inr (Finite r)"
  shows "\<exists>k. Finite r = round_to_double (of_int k / 10 ^ 4)"
proof -
  from assms obtain x where "py_round x 4 = Finite r"
    by (auto simp: estimate_cost_def Let_def split: sum.splits)
  then show ?thesis
  proof (cases x)
    case (Finite x1)
    with \<open>py_round x 4 = Finite r\<close>
    have "Finite r = round_to_double (of_int (round_half_even (x1 * 10 ^ 4)) / 10 ^ 4)"
      by simp
    then show ?thesis by (rule exI)
  qed simp_all
qed


lemma round_half_even_error: "\<bar>of_int (round_half_even x) - x\<bar> \<le> 1 / 2"
proof -
  have "of_int \<lfloor>x\<rfloor> \<le> x" "x < of_int \<lfloor>x\<rfloor> + 1" by linarith+
  then show ?thesis
    by (auto simp: round_half_even_def Let_def abs_le_iff)
qed

lemma round_to_double_error:
  assumes "\<bar>x\<bar> \<le> B" "B < pow2 1023"
  shows "\<exists>r. round_to_double x = Finite r \<and> \<bar>r - x\<bar> \<le> (B + 1) / 2 ^ 53"
proof (cases "x = 0")
  case True
  have "0 \<le> B" using assms(1) by linarith
  then show ?thesis by (simp add: True)
next
  case False
  then have pos: "0 < \<bar>x\<bar>" by simp
  define e where "e = max (floor_log2 \<bar>x\<bar>) (- 1022)"
  define ulp where "ulp = pow2 (e - 52)"
  define r where "r = of_int (round_half_even (x / ulp)) * ulp"
  have ulp_pos: "0 < ulp" by (simp add: ulp_def)
  from round_half_even_error [of "x / ulp"]
  have "\<bar>of_int (round_half_even (x / ulp)) - x / ulp\<bar> * ulp \<le> 1 / 2 * ulp"
    using ulp_pos by (intro mult_right_mono) simp_all
  moreover have "\<bar>of_int (round_half_even (x / ulp)) - x / ulp\<bar> * ulp = \<bar>r - x\<bar>"
  proof -
    have "r - x = (of_int (round_half_even (x / ulp)) - x / ulp) * ulp"
      using ulp_pos by (simp add: r_def field_simps)
    then show ?thesis using ulp_pos by (simp add: abs_mult)
  qed
  ultimately have err: "\<bar>r - x\<bar> \<le> ulp / 2" by simp
  have half: "ulp / 2 = pow2 e / 2 ^ 53"
  proof -
    have "pow2 e = pow2 (e - 52) * pow2 52" using pow2_add [of "e - 52" 52] by simp
    then show ?thesis by (simp add: ulp_def pow2_def)
  qed
  have ulp_le: "ulp / 2 \<le> (B + 1) / 2 ^ 53"
  proof (cases "floor_log2 \<bar>x\<bar> \<le> - 1022")
    case True
    then have "e = - 1022" by (simp add: e_def)
    then have "pow2 e \<le> 1" using pow2_mono [of "- 1022" 0] by (simp add: pow2_def)
    moreover have "0 \<le> B" using assms(1) by linarith
    ultimately have "pow2 e \<le> B + 1" by linarith
    then show ?thesis unfolding half by (simp add: divide_right_mono)
  next
    case False
    then have "e = floor_log2 \<bar>x\<bar>" by (simp add: e_def)
    with floor_log2_bounds [OF pos] have "pow2 e \<le> \<bar>x\<bar>" by simp
    with assms(1) have "pow2 e \<le> B + 1" by linarith
    then show ?thesis unfolding half by (simp add: divide_right_mono)
  qed
  have e_le: "e \<le> 1022"
  proof (rule ccontr)
    assume "\<not> e \<le> 1022"
    then have "1023 \<le> floor_log2 \<bar>x\<bar>" by (simp add: e_def)
    then have "pow2 1023 \<le> pow2 (floor_log2 \<bar>x\<bar>)" by (rule pow2_mono)
    with floor_log2_bounds [OF pos] assms show False by linarith
  qed
  have "pow2 e / 2 ^ 53 \<le> pow2 e / 1"
    by (intro divide_left_mono) (simp_all add: less_imp_le)
  then have "pow2 e / 2 ^ 53 \<le> pow2 e" by simp
  then have "ulp / 2 \<le> pow2 1022"
    unfolding half using pow2_mono [OF e_le] by (rule order_trans)
  with err assms have "\<bar>r\<bar> < pow2 1023 + pow2 1022" by linarith
  moreover have "pow2 1023 + pow2 1022 \<le> pow2 1024" by (simp add: pow2_def)
  ultimately have no: "\<not> pow2 1024 \<le> \<bar>r\<bar>" by linarith
  have "round_to_double x = Finite r"
    using False no unfolding round_to_double_def Let_def e_def [symmetric] ulp_def [symmetric]
      r_def [symmetric] by simp
  with err ulp_le show ?thesis by (intro exI [of _ r]) simp
qed


lemma round_eps:
  assumes "\<bar>x\<bar> \<le> 99999999"
  shows "\<exists>r. round_to_double x = Finite r \<and> \<bar>r - x\<bar> \<le> eps"
proof -
  have "(99999999::rat) < pow2 1023" by (simp add: pow2_def)
  from round_to_double_error [OF assms this] show ?thesis by (simp add: eps_def)
qed

lemma true_divide_eps:
  assumes "0 \<le> a" "a \<le> 1000000000000"
  shows "\<exists>d. true_divide a 1000000 = Inr (Finite d)
           \<and> \<bar>d - of_int a / 1000000\<bar> \<le> eps \<and> 0 \<le> of_int a / (1000000::rat)
           \<and> of_int a / (1000000::rat) \<le> 1000000"
proof -
  have lo: "0 \<le> of_int a / (1000000::rat)" using assms(1) by simp
  have "(of_int a::rat) \<le> 1000000000000" using assms(2) by (metis of_int_le_iff of_int_numeral)
  then have hi: "of_int a / (1000000::rat) \<le> 1000000" by simp
  from lo hi have "\<bar>of_int a / (1000000::rat)\<bar> \<le> 99999999" by simp
  from round_eps [OF this] obtain d where
    "round_to_double (of_int a / 1000000) = Finite d" "\<bar>d - of_int a / 1000000\<bar> \<le> eps"
    by blast
  with lo hi show ?thesis by (simp add: true_divide_def)
qed


lemma eps_small: "0 \<le> eps" "eps \<le> 1 / 10000000" "26 * eps \<le> 1 / 1000000"
  by (simp_all add: eps_def)

lemma abs_bounds: "\<bar>a - b\<bar> \<le> c \<Longrightarrow> b - c \<le> a \<and> a \<le> b + (c::rat)"
  by linarith

lemma estimate_cost_accuracy:
  assumes "0 \<le> i" "i \<le> 1000000000000" "0 \<le> out" "out \<le> 1000000000000"
    and "0 \<le> c" "c \<le> 1000000000000"
  shows "\<exists>r. estimate_cost [(''input'', i), (''output'', out), (''cache_read'', c)]
               = Inr (Finite r)
           \<and> \<bar>r - (3 * of_int i + 15 * of_int out + 3 / 10 * of_int c) / 1000000\<bar>
               \<le> 1 / 20000 + 1 / 1000000"
proof -
  define qi :: rat where "qi = of_int i / 1000000"
  define qo :: rat where "qo = of_int out / 1000000"
  define qc :: rat where "qc = of_int c / 1000000"
  define k0 :: rat where "k0 = 5404319552844595 / 18014398509481984"
  note e = eps_small
  from true_divide_eps [OF assms(1,2)] obtain di where
    di: "true_divide i 1000000 = Inr (Finite di)" and "\<bar>di - qi\<bar> \<le> eps"
    and qi: "0 \<le> qi" "qi \<le> 1000000"
    unfolding qi_def by blast
  then have di': "qi - eps \<le> di" "di \<le> qi + eps" by linarith+
  from true_divide_eps [OF assms(3,4)] obtain dout where
    dout: "true_divide out 1000000 = Inr (Finite dout)" and "\<bar>dout - qo\<bar> \<le> eps"
    and qo: "0 \<le> qo" "qo \<le> 1000000"
    unfolding qo_def by blast
  then have dout': "qo - eps \<le> dout" "dout \<le> qo + eps" by linarith+
  from true_divide_eps [OF assms(5,6)] obtain dc where
    dc: "true_divide c 1000000 = Inr (Finite dc)" and "\<bar>dc - qc\<bar> \<le> eps"
    and qc: "0 \<le> qc" "qc \<le> 1000000"
    unfolding qc_def by blast
  then have dc': "qc - eps \<le> dc" "dc \<le> qc + eps" by linarith+
  have "\<bar>di * 3\<bar> \<le> 99999999" using di' qi e by linarith
  from round_eps [OF this] obtain p_in where
    p_in: "round_to_double (di * 3) = Finite p_in" and "\<bar>p_in - di * 3\<bar> \<le> eps" by blast
  then have p_in': "3 * qi - 4 * eps \<le> p_in" "p_in \<le> 3 * qi + 4 * eps"
    using di' by linarith+
  have "\<bar>dout * 15\<bar> \<le> 99999999" using dout' qo e by linarith
  from round_eps [OF this] obtain p_out where
    p_out: "round_to_double (dout * 15) = Finite p_out" and "\<bar>p_out - dout * 15\<bar> \<le> eps"
    by blast
  then have p_out': "15 * qo - 16 * eps \<le> p_out" "p_out \<le> 15 * qo + 16 * eps"
    using dout' by linarith+
  have eps_num: "eps = 100000000 / 9007199254740992" by (simp add: eps_def)
  have k: "dc * k0 \<le> 3 / 10 * qc + eps" "3 / 10 * qc - 2 * eps \<le> dc * k0"
    using dc' qc unfolding k0_def eps_num by linarith+
  then have "\<bar>dc * k0\<bar> \<le> 99999999" using qc e by linarith
  from round_eps [OF this] obtain p_c where
    p_c: "round_to_double (dc * k0) = Finite p_c" and "\<bar>p_c - dc * k0\<bar> \<le> eps" by blast
  then have p_c': "3 / 10 * qc - 3 * eps \<le> p_c" "p_c \<le> 3 / 10 * qc + 2 * eps"
    using k by linarith+
  have "\<bar>p_in + p_out\<bar> \<le> 99999999" using p_in' p_out' qi qo e by linarith
  from round_eps [OF this] obtain s1 where
    s1: "round_to_double (p_in + p_out) = Finite s1" and "\<bar>s1 - (p_in + p_out)\<bar> \<le> eps"
    by blast
  then have s1': "3 * qi + 15 * qo - 21 * eps \<le> s1" "s1 \<le> 3 * qi + 15 * qo + 21 * eps"
    using p_in' p_out' by linarith+
  have "\<bar>s1 + p_c\<bar> \<le> 99999999" using s1' p_c' qi qo qc e by linarith
  from round_eps [OF this] obtain s2 where
    s2: "round_to_double (s1 + p_c) = Finite s2" and "\<bar>s2 - (s1 + p_c)\<bar> \<le> eps" by blast
  then have s2': "3 * qi + 15 * qo + 3 / 10 * qc - 25 * eps \<le> s2"
    "s2 \<le> 3 * qi + 15 * qo + 3 / 10 * qc + 24 * eps"
    using s1' p_c' by linarith+
  define t :: rat where "t = of_int (round_half_even (s2 * 10 ^ 4)) / 10 ^ 4"
  have "\<bar>t - s2\<bar> \<le> 1 / 20000"
    unfolding t_def using round_half_even_error [of "s2 * 10 ^ 4"]
    by (simp add: abs_le_iff field_simps)
  then have t': "s2 - 1 / 20000 \<le> t" "t \<le> s2 + 1 / 20000" by linarith+
  have "\<bar>t\<bar> \<le> 99999999" using t' s2' qi qo qc e by linarith
  from round_eps [OF this] obtain r where
    r: "round_to_double t = Finite r" and "\<bar>r - t\<bar> \<le> eps" by blast
  then have r': "t - eps \<le> r" "r \<le> t + eps" by linarith+
  have tn: "of_int (round_half_even (s2 * 10000)) / 10000 = t"
    by (simp add: t_def)
  have cost: "estimate_cost [(''input'', i), (''output'', out), (''cache_read'', c)] = Inr (Finite r)"
    unfolding estimate_cost_def tokens_get_def Let_def
    by (simp add: di dout dc INPUT_PRICE_PER_M_def OUTPUT_PRICE_PER_M_def
        CACHE_PRICE_PER_M_def double_three double_fifteen double_three_tenths
        k0_def [symmetric] p_in p_out p_c s1 s2 tn r)
  have exact: "(3 * of_int i + 15 * of_int out + 3 / 10 * of_int c) / 1000000
                 = 3 * qi + 15 * qo + 3 / 10 * qc"
    by (simp add: qi_def qo_def qc_def field_simps)
  have "\<bar>r - (3 * qi + 15 * qo + 3 / 10 * qc)\<bar> \<le> 1 / 20000 + 1 / 1000000"
    using r' t' s2' e by linarith
  with cost show ?thesis unfolding exact by blast
qed


text \<open>
  Claim C8. \<^verbatim>\<open>estimate_cost\<close> is a function of the three token totals. For the totals
  1000000, 1000000, 1000000 it returns the float \<^verbatim>\<open>18.30\<close> (the float nearest to 18.3), and
  for the totals 0, 0, 0 the float \<^verbatim>\<open>0.0\<close>. Every finite result is the float nearest to a
  number with four decimal places. For totals between 0 and \<open>10\<^sup>1\<^sup>2\<close> the result is finite
  and differs from \<open>(3 input + 15 output + 0.3 cache_read) / 10\<^sup>6\<close> by at most half a unit
  of the fourth decimal place plus \<open>10\<^sup>-\<^sup>6\<close> for the rounding of the float operations.
\<close>

theorem estimate_cost_formula:
  "estimate_cost [(''input'', 1000000), (''output'', 1000000), (''cache_read'', 1000000)]
     = Inr (round_to_double (183 / 10))
   \<and> estimate_cost [(''input'', 0), (''output'', 0), (''cache_read'', 0)] = Inr (Finite 0)
   \<and> (estimate_cost tokens = Inr (Finite x) \<longrightarrow>
        (\<exists>k. Finite x = round_to_double (of_int k / 10 ^ 4)))
   \<and> (0 \<le> i \<and> i \<le> 1000000000000 \<and> 0 \<le> out \<and> out \<le> 1000000000000
          \<and> 0 \<le> c \<and> c \<le> 1000000000000 \<longrightarrow>
        (\<exists>r. estimate_cost [(''input'', i), (''output'', out), (''cache_read'', c)]
                = Inr (Finite r)
            \<and> \<bar>r - (3 * of_int i + 15 * of_int out + 3 / 10 * of_int c) / 1000000\<bar>
                \<le> 1 / 20000 + 1 / 1000000))"
  using estimate_cost_million estimate_cost_zero estimate_cost_four_places [of tokens x]
    estimate_cost_accuracy [of i out c]
  by blast

theorem estimate_cost_formula_witness:
  "(0 \<le> (1000000::int) \<and> (1000000::int) \<le> 1000000000000)
   \<and> estimate_cost [(''input'', 1000000), (''output'', 1000000), (''cache_read'', 1000000)]
       = Inr (Finite (5150992073805005 / 281474976710656))
   \<and> (\<exists>k. Finite (5150992073805005 / 281474976710656) = round_to_double (of_int k / 10 ^ 4))
   \<and> (\<exists>r. estimate_cost [(''input'', 1000000), (''output'', 1000000), (''cache_read'', 1000000)]
              = Inr (Finite r)
          \<and> \<bar>r - (3 * of_int 1000000 + 15 * of_int 1000000 + 3 / 10 * of_int 1000000) / 1000000\<bar>
              \<le> 1 / 20000 + 1 / 1000000)"
proof -
  let ?tokens = "[(''input'', 1000000), (''output'', 1000000), (''cache_read'', 1000000)]"
  let ?v = "5150992073805005 / 281474976710656 :: rat"
  note t = estimate_cost_formula [of ?tokens ?v 1000000 1000000 1000000]
  have h: "0 \<le> (1000000::int) \<and> (1000000::int) \<le> 1000000000000" by simp
  from t have v: "estimate_cost ?tokens = Inr (Finite ?v)"
    by (simp only: double_eighteen_three)
  with t have k: "\<exists>k. Finite ?v = round_to_double (of_int k / 10 ^ 4)" by blast
  from t h have a: "\<exists>r. estimate_cost ?tokens = Inr (Finite r)
          \<and> \<bar>r - (3 * of_int 1000000 + 15 * of_int 1000000 + 3 / 10 * of_int 1000000) / 1000000\<bar>
              \<le> 1 / 20000 + 1 / 1000000"
    by blast
  from h v k a show ?thesis by blast
qed

end
